theory Spec2Isabelle
  imports Main "HOL-Library.Mapping" "HOL-Library.RBT_Mapping" "HOL-Library.Multiset"
    "HOL-Library.Signed_Division"
begin

section \<open>The Go library functions the package calls\<close>

text \<open>
  A Go \<open>string\<close> is a sequence of bytes: \<open>string\<close> (a \<open>char list\<close>) here. Go's
  \<open>int\<close> and \<open>time.Duration\<close> are 64-bit; they are \<open>int\<close> here, and every place where
  the 64-bit range matters is written out (\<open>Atoi\<close> rejects what does not fit).
\<close>

definition maxInt :: int where
  "maxInt = 9223372036854775807"

definition minInt :: int where
  "minInt = - 9223372036854775808"

text \<open>
  The errors of the package: \<open>fmt.Errorf\<close> messages become constructors, \<open>%w\<close> wrapping
  becomes a constructor argument. \<open>NumError\<close> is \<open>*strconv.NumError\<close> (syntax or range).
\<close>

datatype error =
    NumError string
  | ErrFieldCount
  | ErrTimeRangeFormat
  | ErrTimeFormat
  | ErrTimeValues
  | ErrRangeFormat
  | ErrValuesOutOfRange
  | ErrValueOutOfRange
  | ErrInvalidDow error
  | ErrInvalidDom error
  | ErrInvalidMonth error
  | ErrInvalidRule string error
  | ErrCantRead error
  | ErrTooLong
  | ErrReadingInput error

subsection \<open>strings.Split, strings.Contains, strings.Join with a one-byte separator\<close>

fun Split :: "string \<Rightarrow> char \<Rightarrow> string list" where
  "Split [] sep = [[]]"
| "Split (c # cs) sep =
     (if c = sep then [] # Split cs sep
      else (case Split cs sep of [] \<Rightarrow> [[c]] | p # ps \<Rightarrow> (c # p) # ps))"

definition Contains :: "string \<Rightarrow> char \<Rightarrow> bool" where
  "Contains s sep = (sep \<in> set s)"

fun Join :: "string list \<Rightarrow> string \<Rightarrow> string" where
  "Join [] sep = []"
| "Join [x] sep = x"
| "Join (x # y # ys) sep = x @ sep @ Join (y # ys) sep"

subsection \<open>Unicode white space, strings.Fields and strings.TrimSpace\<close>

text \<open>
  \<open>unicode.IsSpace\<close> holds of U+0009..U+000D, U+0020, U+0085, U+00A0, U+1680,
  U+2000..U+200A, U+2028, U+2029, U+202F, U+205F and U+3000. \<open>isSpaceRune\<close> recognises the
  UTF-8 encoding of one of them. Each encoding starts with a byte that is never a
  continuation byte, so scanning bytes for these encodings finds the same white space as
  decoding runes does.
\<close>

definition isSpaceRune :: "string \<Rightarrow> bool" where
  "isSpaceRune bs =
     (case bs of
        [a] \<Rightarrow> a = CHR 0x09 \<or> a = CHR 0x0A \<or> a = CHR 0x0B \<or> a = CHR 0x0C \<or> a = CHR 0x0D
                 \<or> a = CHR 0x20
      | [a, b] \<Rightarrow> a = CHR 0xC2 \<and> (b = CHR 0x85 \<or> b = CHR 0xA0)
      | [a, b, c] \<Rightarrow>
          (a = CHR 0xE1 \<and> b = CHR 0x9A \<and> c = CHR 0x80)
          \<or> (a = CHR 0xE2 \<and> b = CHR 0x80
               \<and> ((128 :: nat) \<le> of_char c \<and> (of_char c :: nat) \<le> 138
                    \<or> c = CHR 0xA8 \<or> c = CHR 0xA9 \<or> c = CHR 0xAF))
          \<or> (a = CHR 0xE2 \<and> b = CHR 0x81 \<and> c = CHR 0x9F)
          \<or> (a = CHR 0xE3 \<and> b = CHR 0x80 \<and> c = CHR 0x80)
      | _ \<Rightarrow> False)"

text \<open>The width in bytes of the white-space rune a string starts with; 0 when there is none.\<close>

definition spaceWidth :: "string \<Rightarrow> nat" where
  "spaceWidth s =
     (if 1 \<le> length s \<and> isSpaceRune (take 1 s) then 1
      else if 2 \<le> length s \<and> isSpaceRune (take 2 s) then 2
      else if 3 \<le> length s \<and> isSpaceRune (take 3 s) then 3
      else 0)"

text \<open>The width of the white-space rune a string ends with; 0 when there is none.\<close>

definition spaceWidthLast :: "string \<Rightarrow> nat" where
  "spaceWidthLast s =
     (if 1 \<le> length s \<and> isSpaceRune (rev (take 1 (rev s))) then 1
      else if 2 \<le> length s \<and> isSpaceRune (rev (take 2 (rev s))) then 2
      else if 3 \<le> length s \<and> isSpaceRune (rev (take 3 (rev s))) then 3
      else 0)"

text \<open>
  \<open>strings.Fields\<close>: the maximal runs of bytes between white-space runes. \<open>fieldsFrom cur s\<close>
  has read the bytes \<open>cur\<close> of the current field and goes on with \<open>s\<close>.
\<close>

function fieldsFrom :: "string \<Rightarrow> string \<Rightarrow> string list" where
  "fieldsFrom cur [] = (if cur = [] then [] else [cur])"
| "fieldsFrom cur (c # cs) =
     (if 0 < spaceWidth (c # cs)
      then (if cur = [] then [] else [cur]) @ fieldsFrom [] (drop (spaceWidth (c # cs)) (c # cs))
      else fieldsFrom (cur @ [c]) cs)"
  by pat_completeness auto
termination
  by (relation "measure (\<lambda>(cur, s). length s)") (auto simp: spaceWidth_def)

definition Fields :: "string \<Rightarrow> string list" where
  "Fields s = fieldsFrom [] s"

function trimLeft :: "string \<Rightarrow> string" where
  "trimLeft s = (if 0 < spaceWidth s then trimLeft (drop (spaceWidth s) s) else s)"
  by pat_completeness auto
termination
proof (relation "measure length")
  show "wf (measure length)" by simp
next
  fix s :: string
  assume "0 < spaceWidth s"
  moreover have "spaceWidth s \<le> length s" by (simp add: spaceWidth_def)
  ultimately show "(drop (spaceWidth s) s, s) \<in> measure length" by simp
qed

function trimRight :: "string \<Rightarrow> string" where
  "trimRight s =
     (if 0 < spaceWidthLast s then trimRight (take (length s - spaceWidthLast s) s) else s)"
  by pat_completeness auto
termination
proof (relation "measure length")
  show "wf (measure length)" by simp
next
  fix s :: string
  assume "0 < spaceWidthLast s"
  moreover have "spaceWidthLast s \<le> length s" by (simp add: spaceWidthLast_def)
  ultimately show "(take (length s - spaceWidthLast s) s, s) \<in> measure length" by simp
qed

declare trimLeft.simps [simp del] trimRight.simps [simp del]

definition TrimSpace :: "string \<Rightarrow> string" where
  "TrimSpace s = trimRight (trimLeft s)"

subsection \<open>strconv.Atoi and the %d verbs of fmt.Sprintf\<close>

definition isDigit :: "char \<Rightarrow> bool" where
  "isDigit c = ((48 :: nat) \<le> of_char c \<and> (of_char c :: nat) \<le> 57)"

fun digitsVal :: "int \<Rightarrow> string \<Rightarrow> int" where
  "digitsVal n [] = n"
| "digitsVal n (c # cs) = digitsVal (n * 10 + (int (of_char c) - 48)) cs"

text \<open>
  \<open>strconv.Atoi\<close>: an optional sign, then one or more decimal digits and nothing else; the
  value must fit 64 bits. Every failure is a \<open>*strconv.NumError\<close> carrying the input.
\<close>

definition Atoi :: "string \<Rightarrow> error + int" where
  "Atoi s =
     (let body = (case s of [] \<Rightarrow> [] | c # cs \<Rightarrow> if c = CHR ''-'' \<or> c = CHR ''+'' then cs else s);
          n = (case s of [] \<Rightarrow> 0
               | c # cs \<Rightarrow> if c = CHR ''-'' then - digitsVal 0 body else digitsVal 0 body)
      in if body = [] \<or> \<not> list_all isDigit body then Inl (NumError s)
         else if n < minInt \<or> maxInt < n then Inl (NumError s)
         else Inr n)"

definition digitChar :: "nat \<Rightarrow> char" where
  "digitChar d = char_of (48 + d)"

fun natDigits :: "nat \<Rightarrow> string" where
  "natDigits n = (if n < 10 then [digitChar n] else natDigits (n div 10) @ [digitChar (n mod 10)])"

declare natDigits.simps [simp del]

text \<open>\<open>fmt.Sprintf("%d", n)\<close>.\<close>

definition fmtD :: "int \<Rightarrow> string" where
  "fmtD n = (if n < 0 then CHR ''-'' # natDigits (nat (- n)) else natDigits (nat n))"

text \<open>
  \<open>fmt.Sprintf("%02d", n)\<close>: zero padding to width 2, where the sign of a negative number
  takes one of the two places.
\<close>

definition fmt02D :: "int \<Rightarrow> string" where
  "fmt02D n =
     (if n < 0 then CHR ''-'' # natDigits (nat (- n))
      else if n < 10 then CHR ''0'' # natDigits (nat n)
      else natDigits (nat n))"

section \<open>The data model (rule.go)\<close>

text \<open>
  \<open>Field.values\<close> is a \<open>map[int]bool\<close>; the nil map of \<open>Field{all: true}\<close> and the empty
  map are both \<open>Mapping.empty\<close>. \<open>TimeRange.start\<close> and \<open>TimeRange.end\<close> are durations in
  nanoseconds.
\<close>

record Field =
  Field_values :: "(int, bool) mapping"
  Field_all :: bool

record TimeRange =
  TimeRange_start :: int
  TimeRange_end :: int
  TimeRange_all :: bool
  TimeRange_overnight :: bool
  TimeRange_hasSeconds :: bool

record Rule =
  Rule_timeRange :: TimeRange
  Rule_dow :: Field
  Rule_dom :: Field
  Rule_month :: Field

text \<open>
  A \<open>time.Time\<close> as \<open>Rule.matches\<close> reads it: through \<open>Month()\<close>, \<open>Day()\<close>, \<open>Weekday()\<close>,
  \<open>Hour()\<close>, \<open>Minute()\<close> and \<open>Second()\<close>.
\<close>

record Time =
  Time_Month :: int
  Time_Day :: int
  Time_Weekday :: int
  Time_Hour :: int
  Time_Minute :: int
  Time_Second :: int

definition Second :: int where
  "Second = 1000000000"

definition Minute :: int where
  "Minute = 60 * Second"

definition Hour :: int where
  "Hour = 60 * Minute"

section \<open>Parsing (rule.go)\<close>

text \<open>
  \<open>parseTime\<close> returns the duration, whether seconds were given, or the error. The
  product is formed after the bounds check, so it cannot overflow.
\<close>

definition parseTime :: "string \<Rightarrow> error + (int \<times> bool)" where
  "parseTime s =
     (let parts = Split s (CHR '':'') in
      if length parts < 2 \<or> 3 < length parts then Inl ErrTimeFormat
      else case Atoi (parts ! 0) of
        Inl e \<Rightarrow> Inl e
      | Inr hours \<Rightarrow>
        (case Atoi (parts ! 1) of
          Inl e \<Rightarrow> Inl e
        | Inr minutes \<Rightarrow>
          (let hasSeconds = (length parts = 3) in
           case (if hasSeconds then Atoi (parts ! 2) else Inr 0) of
             Inl e \<Rightarrow> Inl e
           | Inr seconds \<Rightarrow>
               if hours < 0 \<or> 23 < hours \<or> minutes < 0 \<or> 59 < minutes
                  \<or> seconds < 0 \<or> 59 < seconds
               then Inl ErrTimeValues
               else Inr (hours * Hour + minutes * Minute + seconds * Second, hasSeconds))))"

definition parseTimeRange :: "string \<Rightarrow> error + TimeRange" where
  "parseTimeRange s =
     (if s = ''*''
      then Inr \<lparr>TimeRange_start = 0, TimeRange_end = 0, TimeRange_all = True,
                TimeRange_overnight = False, TimeRange_hasSeconds = False\<rparr>
      else let parts = Split s (CHR ''-'') in
        if length parts \<noteq> 2 then Inl ErrTimeRangeFormat
        else case parseTime (parts ! 0) of
          Inl e \<Rightarrow> Inl e
        | Inr (start, hasStartSeconds) \<Rightarrow>
          (case parseTime (parts ! 1) of
            Inl e \<Rightarrow> Inl e
          | Inr (end', hasEndSeconds) \<Rightarrow>
              Inr \<lparr>TimeRange_start = start, TimeRange_end = end', TimeRange_all = False,
                    TimeRange_overnight = (end' < start),
                    TimeRange_hasSeconds = (hasStartSeconds \<or> hasEndSeconds)\<rparr>))"

text \<open>
  The inner loop of \<open>parseField\<close>, \<open>for i := start; i <= end; i++ { values[i] = true }\<close>.
  The counter is not wrapped here: \<open>i++\<close> overflows only when \<open>end\<close> is the largest
  \<open>int\<close>, which the bounds check before the loop allows only if \<open>max\<close> is that number.
\<close>

function fillRange :: "int \<Rightarrow> int \<Rightarrow> (int, bool) mapping \<Rightarrow> (int, bool) mapping" where
  "fillRange i end' vals =
     (if i \<le> end' then fillRange (i + 1) end' (Mapping.update i True vals) else vals)"
  by pat_completeness auto
termination
  by (relation "measure (\<lambda>(i, end', vals). nat (end' + 1 - i))") auto

declare fillRange.simps [simp del]

text \<open>One pass of the loop over the comma-separated items of \<open>parseField\<close>.\<close>

definition parseFieldItem ::
  "string \<Rightarrow> int \<Rightarrow> int \<Rightarrow> (int, bool) mapping \<Rightarrow> error + (int, bool) mapping" where
  "parseFieldItem r min' max' vals =
     (if Contains r (CHR ''-'')
      then let parts = Split r (CHR ''-'') in
        if length parts \<noteq> 2 then Inl ErrRangeFormat
        else case Atoi (parts ! 0) of
          Inl e \<Rightarrow> Inl e
        | Inr start \<Rightarrow>
          (case Atoi (parts ! 1) of
            Inl e \<Rightarrow> Inl e
          | Inr end' \<Rightarrow>
              if start < min' \<or> max' < end' \<or> end' < start then Inl ErrValuesOutOfRange
              else Inr (fillRange start end' vals))
      else case Atoi r of
        Inl e \<Rightarrow> Inl e
      | Inr val \<Rightarrow>
          if val < min' \<or> max' < val then Inl ErrValueOutOfRange
          else Inr (Mapping.update val True vals))"

fun parseFieldItems ::
  "string list \<Rightarrow> int \<Rightarrow> int \<Rightarrow> (int, bool) mapping \<Rightarrow> error + (int, bool) mapping" where
  "parseFieldItems [] min' max' vals = Inr vals"
| "parseFieldItems (r # rs) min' max' vals =
     (case parseFieldItem r min' max' vals of
        Inl e \<Rightarrow> Inl e
      | Inr vals' \<Rightarrow> parseFieldItems rs min' max' vals')"

definition parseField :: "string \<Rightarrow> int \<Rightarrow> int \<Rightarrow> error + Field" where
  "parseField s min' max' =
     (if s = ''*'' then Inr \<lparr>Field_values = Mapping.empty, Field_all = True\<rparr>
      else case parseFieldItems (Split s (CHR '','')) min' max' Mapping.empty of
        Inl e \<Rightarrow> Inl e
      | Inr vals \<Rightarrow> Inr \<lparr>Field_values = vals, Field_all = False\<rparr>)"

definition parseRule :: "string \<Rightarrow> error + Rule" where
  "parseRule rule =
     (let parts = Fields rule in
      if length parts \<noteq> 4 then Inl ErrFieldCount
      else case parseTimeRange (parts ! 0) of
        Inl e \<Rightarrow> Inl e
      | Inr timeRange \<Rightarrow>
        (case parseField (parts ! 1) 0 6 of
          Inl e \<Rightarrow> Inl (ErrInvalidDow e)
        | Inr dow \<Rightarrow>
          (case parseField (parts ! 2) 1 31 of
            Inl e \<Rightarrow> Inl (ErrInvalidDom e)
          | Inr dom' \<Rightarrow>
            (case parseField (parts ! 3) 1 12 of
              Inl e \<Rightarrow> Inl (ErrInvalidMonth e)
            | Inr month \<Rightarrow>
                Inr \<lparr>Rule_timeRange = timeRange, Rule_dow = dow, Rule_dom = dom',
                      Rule_month = month\<rparr>))))"

section \<open>Matching (rule.go)\<close>

definition Field_matches :: "Field \<Rightarrow> int \<Rightarrow> bool" where
  "Field_matches f val = (Field_all f \<or> Mapping.lookup_default False (Field_values f) val)"

definition Rule_matches :: "Rule \<Rightarrow> Time \<Rightarrow> bool" where
  "Rule_matches r t =
     (if \<not> Field_matches (Rule_month r) (Time_Month t) then False
      else if \<not> Field_matches (Rule_dom r) (Time_Day t) then False
      else if \<not> Field_matches (Rule_dow r) (Time_Weekday t) then False
      else if TimeRange_all (Rule_timeRange r) then True
      else let currentTime = Time_Hour t * Hour + Time_Minute t * Minute + Time_Second t * Second in
        if TimeRange_overnight (Rule_timeRange r)
        then TimeRange_start (Rule_timeRange r) \<le> currentTime
             \<or> currentTime \<le> TimeRange_end (Rule_timeRange r)
        else TimeRange_start (Rule_timeRange r) \<le> currentTime
             \<and> currentTime \<le> TimeRange_end (Rule_timeRange r))"

section \<open>Formatting (rule.go)\<close>

text \<open>
  \<open>TimeRange.String\<close>. Go's \<open>/\<close> and \<open>%\<close> truncate towards zero: \<open>sdiv\<close> and \<open>smod\<close>.
\<close>

definition TimeRange_String :: "TimeRange \<Rightarrow> string" where
  "TimeRange_String tr =
     (if TimeRange_all tr then ''*''
      else let startH = TimeRange_start tr sdiv Hour;
               startM = (TimeRange_start tr smod Hour) sdiv Minute;
               startS = (TimeRange_start tr smod Minute) sdiv Second;
               endH = TimeRange_end tr sdiv Hour;
               endM = (TimeRange_end tr smod Hour) sdiv Minute;
               endS = (TimeRange_end tr smod Minute) sdiv Second
        in if TimeRange_hasSeconds tr
           then fmt02D startH @ '':'' @ fmt02D startM @ '':'' @ fmt02D startS @ ''-''
                @ fmt02D endH @ '':'' @ fmt02D endM @ '':'' @ fmt02D endS
           else fmt02D startH @ '':'' @ fmt02D startM @ ''-'' @ fmt02D endH @ '':'' @ fmt02D endM)"

text \<open>What \<open>Field.String\<close> appends for the run from \<open>start\<close> to \<open>prev\<close>.\<close>

definition fmtRun :: "int \<Rightarrow> int \<Rightarrow> string" where
  "fmtRun start prev = (if start = prev then fmtD start else fmtD start @ ''-'' @ fmtD prev)"

text \<open>
  The loop of \<open>Field.String\<close> over \<open>vals[1:]\<close>, with the append after the loop as its last
  step.
\<close>

fun runsLoop :: "int list \<Rightarrow> int \<Rightarrow> int \<Rightarrow> string list \<Rightarrow> string list" where
  "runsLoop [] start prev ranges = ranges @ [fmtRun start prev]"
| "runsLoop (v # vs) start prev ranges =
     (if v \<noteq> prev + 1 then runsLoop vs v v (ranges @ [fmtRun start prev])
      else runsLoop vs start v ranges)"

text \<open>
  \<open>Field.String\<close>: the keys of the map, sorted by \<open>sort.Ints\<close>, are \<open>Mapping.ordered_keys\<close>.
\<close>

definition Field_String :: "Field \<Rightarrow> string" where
  "Field_String f =
     (if Field_all f then ''*''
      else case Mapping.ordered_keys (Field_values f) of
        [] \<Rightarrow> ''*''
      | v # vs \<Rightarrow> Join (runsLoop vs v v []) '','')"

definition Rule_String :: "Rule \<Rightarrow> string" where
  "Rule_String r =
     TimeRange_String (Rule_timeRange r) @ '' '' @ Field_String (Rule_dow r) @ '' ''
     @ Field_String (Rule_dom r) @ '' '' @ Field_String (Rule_month r)"

section \<open>The package interface (cronrange.go)\<close>

text \<open>The loop of \<open>Parse\<close> over the segments between semicolons.\<close>

fun parseRules :: "string list \<Rightarrow> Rule list \<Rightarrow> error + Rule list" where
  "parseRules [] result = Inr result"
| "parseRules (r # rs) result =
     (case parseRule (TrimSpace r) of
        Inl e \<Rightarrow> Inl (ErrInvalidRule r e)
      | Inr rule \<Rightarrow> parseRules rs (result @ [rule]))"

definition Parse :: "string \<Rightarrow> error + Rule list" where
  "Parse expr = parseRules (Split expr (CHR '';'')) []"

fun Match :: "Rule list \<Rightarrow> Time \<Rightarrow> bool" where
  "Match [] t = False"
| "Match (rule # rules) t = (if Rule_matches rule t then True else Match rules t)"

text \<open>
  The text of a list of rules as \<open>TestParse\<close> builds it: the \<open>String()\<close> of each rule,
  with \<open>"; "\<close> between two rules.
\<close>

definition formatRules :: "Rule list \<Rightarrow> string" where
  "formatRules rules = Join (map Rule_String rules) ''; ''"


definition dropCR :: "string \<Rightarrow> string" where
  "dropCR d = (if d \<noteq> [] \<and> last d = CHR 0x0D then butlast d else d)"




section \<open>The specification's reading\<close>

text \<open>
  The definitions of this section follow the words of the specification, not the code; the
  theorems compare the code with them.
\<close>

subsection \<open>Matching\<close>

text \<open>
  An instant's seconds since midnight, a Field as a set of integers or "all", and a
  TimeRange as a closed interval of seconds that wraps past midnight when its end is before
  its start.
\<close>

definition secondsSinceMidnight :: "Time \<Rightarrow> int" where
  "secondsSinceMidnight t = Time_Hour t * 3600 + Time_Minute t * 60 + Time_Second t"

definition spec_Field_matches :: "Field \<Rightarrow> int \<Rightarrow> bool" where
  "spec_Field_matches f val = (if Field_all f then True else val \<in> Mapping.keys (Field_values f))"

definition spec_TimeRange_matches :: "TimeRange \<Rightarrow> int \<Rightarrow> bool" where
  "spec_TimeRange_matches tr v =
     (if TimeRange_all tr then True
      else if TimeRange_end tr < TimeRange_start tr
        then TimeRange_start tr \<le> v * Second \<or> v * Second \<le> TimeRange_end tr
        else TimeRange_start tr \<le> v * Second \<and> v * Second \<le> TimeRange_end tr)"

subsection \<open>The integers a bounded-field token denotes\<close>

text \<open>
  An item is a bare integer or a range \<open>a-b\<close> with exactly one \<open>-\<close>; a token denotes the
  union of its comma-separated items.
\<close>

definition itemValues :: "string \<Rightarrow> int set" where
  "itemValues r =
     (if Contains r (CHR ''-'')
      then (case Split r (CHR ''-'') of
              [x, y] \<Rightarrow> (case (Atoi x, Atoi y) of (Inr a, Inr b) \<Rightarrow> {a..b} | _ \<Rightarrow> {})
            | _ \<Rightarrow> {})
      else (case Atoi r of Inr v \<Rightarrow> {v} | Inl e \<Rightarrow> {}))"

definition tokenValues :: "string \<Rightarrow> int set" where
  "tokenValues s = (\<Union>r\<in>set (Split s (CHR '','')). itemValues r)"

subsection \<open>A time of day\<close>

text \<open>
  \<open>HH:MM\<close> or \<open>HH:MM:SS\<close>: exactly two or three integers separated by colons, the hour
  from 0 to 23, the minute and the second from 0 to 59.
\<close>

definition spec_timeOfDay :: "string \<Rightarrow> bool" where
  "spec_timeOfDay a =
     (case map Atoi (Split a (CHR '':'')) of
        [Inr h, Inr m] \<Rightarrow> 0 \<le> h \<and> h \<le> 23 \<and> 0 \<le> m \<and> m \<le> 59
      | [Inr h, Inr m, Inr sec] \<Rightarrow> 0 \<le> h \<and> h \<le> 23 \<and> 0 \<le> m \<and> m \<le> 59 \<and> 0 \<le> sec \<and> sec \<le> 59
      | _ \<Rightarrow> False)"

subsection \<open>The lines of a stream\<close>



section \<open>Notions of the proofs\<close>

text \<open>
  A map that holds \<open>true\<close> at each of its keys: what \<open>parseField\<close> builds, as it only ever
  stores \<open>true\<close>. And the characters of the tokens that the formatter prints.
\<close>

definition trueSet :: "(int, bool) mapping \<Rightarrow> bool" where
  "trueSet m = (\<forall>k. Mapping.lookup m k = (if k \<in> Mapping.keys m then Some True else None))"

definition tokChar :: "char \<Rightarrow> bool" where
  "tokChar c = (isDigit c \<or> c = CHR ''-'' \<or> c = CHR '','' \<or> c = CHR '':'' \<or> c = CHR ''*'')"

section \<open>Values of the tests\<close>

text \<open>
  \<open>Field{all: true}\<close> and \<open>TimeRange{all: true}\<close>, the rules that the expressions
  \<open>"* * * *"\<close>, \<open>"* 0,6 * *"\<close>, \<open>"09:00-17:00 * * *"\<close> and \<open>"23:00-02:00 * * *"\<close> of the tests
  parse to, and Monday 1 January 2024, 18:30:00.
\<close>

definition anyValue :: Field where
  "anyValue = \<lparr>Field_values = Mapping.empty, Field_all = True\<rparr>"

definition allDay :: TimeRange where
  "allDay = \<lparr>TimeRange_start = 0, TimeRange_end = 0, TimeRange_all = True,
             TimeRange_overnight = False, TimeRange_hasSeconds = False\<rparr>"

definition anyTimeRule :: Rule where
  "anyTimeRule = \<lparr>Rule_timeRange = allDay, Rule_dow = anyValue, Rule_dom = anyValue,
                   Rule_month = anyValue\<rparr>"

definition weekendRule :: Rule where
  "weekendRule =
     \<lparr>Rule_timeRange = allDay,
      Rule_dow = \<lparr>Field_values = Mapping.update 6 True (Mapping.update 0 True Mapping.empty),
                  Field_all = False\<rparr>,
      Rule_dom = anyValue, Rule_month = anyValue\<rparr>"

definition officeHoursRule :: Rule where
  "officeHoursRule =
     \<lparr>Rule_timeRange = \<lparr>TimeRange_start = 9 * Hour, TimeRange_end = 17 * Hour,
         TimeRange_all = False, TimeRange_overnight = False, TimeRange_hasSeconds = False\<rparr>,
      Rule_dow = anyValue, Rule_dom = anyValue, Rule_month = anyValue\<rparr>"

definition nightRule :: Rule where
  "nightRule =
     \<lparr>Rule_timeRange = \<lparr>TimeRange_start = 23 * Hour, TimeRange_end = 2 * Hour,
         TimeRange_all = False, TimeRange_overnight = True, TimeRange_hasSeconds = False\<rparr>,
      Rule_dow = anyValue, Rule_dom = anyValue, Rule_month = anyValue\<rparr>"

definition monday1830 :: Time where
  "monday1830 = \<lparr>Time_Month = 1, Time_Day = 1, Time_Weekday = 1, Time_Hour = 18,
                  Time_Minute = 30, Time_Second = 0\<rparr>"

section \<open>Facts about the parsers\<close>

subsection \<open>Splitting and joining\<close>

lemma Split_no_sep: "c \<notin> set s \<Longrightarrow> Split s c = [s]"
  by (induction s) auto

lemma Split_append_sep: "c \<notin> set a \<Longrightarrow> Split (a @ c # b) c = a # Split b c"
  by (induction a) auto

lemma Split_Join:
  "xs \<noteq> [] \<Longrightarrow> \<forall>x\<in>set xs. c \<notin> set x \<Longrightarrow> Split (Join xs [c]) c = xs"
proof (induction xs "[c]" rule: Join.induct)
  case 1
  then show ?case by simp
next
  case (2 x)
  then show ?case by (simp add: Split_no_sep)
next
  case (3 x y ys)
  then show ?case by (simp add: Split_append_sep)
qed

lemma Split_parts_no_sep: "\<forall>x\<in>set (Split s c). c \<notin> set x"
  by (induction s) (auto split: list.splits)

subsection \<open>Decimal numbers\<close>

lemma digitsVal_snoc: "digitsVal n (cs @ [c]) = digitsVal n cs * 10 + (int (of_char c) - 48)"
  by (induction cs arbitrary: n) auto

lemma of_char_digitChar: "d < 10 \<Longrightarrow> (of_char (digitChar d) :: nat) = 48 + d"
  by (simp add: digitChar_def)

lemma isDigit_digitChar: "d < 10 \<Longrightarrow> isDigit (digitChar d)"
  by (simp add: isDigit_def of_char_digitChar)

lemma natDigits_digits: "list_all isDigit (natDigits n)"
proof (induction n rule: natDigits.induct)
  case (1 n)
  show ?case
  proof (cases "n < 10")
    case True
    then show ?thesis by (subst natDigits.simps) (simp add: isDigit_digitChar)
  next
    case False
    then show ?thesis
      using "1.IH" by (subst natDigits.simps) (simp add: isDigit_digitChar)
  qed
qed

lemma natDigits_nonempty: "natDigits n \<noteq> []"
  by (subst natDigits.simps) simp

lemma digitsVal_natDigits: "digitsVal 0 (natDigits n) = int n"
proof (induction n rule: natDigits.induct)
  case (1 n)
  show ?case
  proof (cases "n < 10")
    case True
    then show ?thesis by (subst natDigits.simps) (simp add: of_char_digitChar)
  next
    case False
    then have "digitsVal 0 (natDigits (n div 10)) = int (n div 10)" using "1.IH" by simp
    moreover have "int (n div 10) * 10 + int (n mod 10) = int n" by presburger
    ultimately show ?thesis
      using False by (subst natDigits.simps) (simp add: digitsVal_snoc of_char_digitChar)
  qed
qed

lemma isDigit_not_sign: "isDigit c \<Longrightarrow> c \<noteq> CHR ''-'' \<and> c \<noteq> CHR ''+''"
  by (auto simp: isDigit_def)

lemma Atoi_digits:
  assumes "cs \<noteq> []" "list_all isDigit cs" "digitsVal 0 cs \<le> maxInt" "0 \<le> digitsVal 0 cs"
  shows "Atoi cs = Inr (digitsVal 0 cs)"
proof -
  obtain c cs' where cs: "cs = c # cs'" using assms(1) by (cases cs) auto
  with assms(2) have "isDigit c" by simp
  then have "c \<noteq> CHR ''-''" "c \<noteq> CHR ''+''" using isDigit_not_sign by auto
  then show ?thesis
    using assms unfolding Atoi_def cs by (simp add: minInt_def)
qed

lemma Atoi_natDigits: "int n \<le> maxInt \<Longrightarrow> Atoi (natDigits n) = Inr (int n)"
  using Atoi_digits[of "natDigits n"]
  by (simp add: natDigits_nonempty natDigits_digits digitsVal_natDigits)

lemma Atoi_fmtD: "0 \<le> v \<Longrightarrow> v \<le> maxInt \<Longrightarrow> Atoi (fmtD v) = Inr v"
  using Atoi_natDigits[of "nat v"] by (simp add: fmtD_def)

lemma digitsVal_zero: "digitsVal 0 (CHR ''0'' # cs) = digitsVal 0 cs"
  by simp

lemma Atoi_fmt02D: "0 \<le> v \<Longrightarrow> v \<le> maxInt \<Longrightarrow> Atoi (fmt02D v) = Inr v"
proof -
  assume v: "0 \<le> v" "v \<le> maxInt"
  show ?thesis
  proof (cases "v < 10")
    case True
    have "Atoi (CHR ''0'' # natDigits (nat v)) = Inr (digitsVal 0 (CHR ''0'' # natDigits (nat v)))"
      apply (rule Atoi_digits)
      using v by (simp_all add: natDigits_digits digitsVal_natDigits isDigit_def)
    then show ?thesis using v True by (simp add: fmt02D_def digitsVal_natDigits)
  next
    case False
    then show ?thesis using v Atoi_natDigits[of "nat v"] by (simp add: fmt02D_def)
  qed
qed

lemma digits_fmtD: "0 \<le> v \<Longrightarrow> list_all isDigit (fmtD v) \<and> fmtD v \<noteq> []"
  by (simp add: fmtD_def natDigits_digits natDigits_nonempty)

lemma digits_fmt02D: "0 \<le> v \<Longrightarrow> list_all isDigit (fmt02D v) \<and> fmt02D v \<noteq> []"
  by (simp add: fmt02D_def natDigits_digits natDigits_nonempty isDigit_def)

text \<open>What Atoi accepts without a minus sign is not negative.\<close>

lemma digitsVal_nonneg: "list_all isDigit cs \<Longrightarrow> 0 \<le> n \<Longrightarrow> 0 \<le> digitsVal n cs"
  by (induction cs arbitrary: n) (auto simp: isDigit_def)

lemma Atoi_nonneg:
  assumes "Atoi s = Inr v" "CHR ''-'' \<notin> set s"
  shows "0 \<le> v \<and> v \<le> maxInt"
proof -
  obtain c cs where s: "s = c # cs"
    using assms(1) by (cases s) (auto simp: Atoi_def)
  from assms(2) s have c: "c \<noteq> CHR ''-''" by auto
  have d: "0 \<le> int (of_char c) - 48" if "isDigit c"
    using that by (simp add: isDigit_def)
  show ?thesis
    using assms(1) c d unfolding Atoi_def s
    by (auto simp: Let_def digitsVal_nonneg split: if_splits)
qed

subsection \<open>The map that parseField builds\<close>

lemma lookup_fillRange:
  "Mapping.lookup (fillRange i e m) k = (if i \<le> k \<and> k \<le> e then Some True else Mapping.lookup m k)"
proof (induction i e m rule: fillRange.induct)
  case (1 i e m)
  show ?case
  proof (cases "i \<le> e")
    case True
    then show ?thesis
      using "1.IH" [OF True] by (subst fillRange.simps) (auto simp: Mapping.lookup_update')
  next
    case False
    then show ?thesis by (subst fillRange.simps) auto
  qed
qed

lemma trueSet_empty: "trueSet Mapping.empty"
  by (simp add: trueSet_def)

lemma keys_fillRange: "Mapping.keys (fillRange i e m) = Mapping.keys m \<union> {i..e}"
  by (auto simp: keys_dom_lookup lookup_fillRange split: if_splits)

lemma trueSet_fillRange: "trueSet m \<Longrightarrow> trueSet (fillRange i e m)"
  unfolding trueSet_def by (auto simp: lookup_fillRange keys_fillRange)

lemma trueSet_update: "trueSet m \<Longrightarrow> trueSet (Mapping.update k True m)"
  unfolding trueSet_def by (auto simp: Mapping.lookup_update')

lemma update_as_fillRange: "Mapping.update v True m = fillRange v v m"
  by (simp add: fillRange.simps[of v v] fillRange.simps[of "v + 1" v])

lemma parseFieldItem_Inr:
  assumes "parseFieldItem r mn mx m = Inr m'"
  shows "\<exists>a b. 0 \<le> a \<and> a \<le> b \<and> b \<le> maxInt \<and> mn \<le> a \<and> b \<le> mx \<and> m' = fillRange a b m"
proof (cases "Contains r (CHR ''-'')")
  case True
  with assms obtain x y a b where xy: "Split r (CHR ''-'') = [x, y]"
    and a: "Atoi x = Inr a" and b: "Atoi y = Inr b"
    and ok: "\<not> a < mn" "\<not> mx < b" "\<not> b < a" "m' = fillRange a b m"
    by (auto simp: parseFieldItem_def Let_def length_Suc_conv numeral_eq_Suc
        split: if_splits sum.splits)
  from Split_parts_no_sep[of r "CHR ''-''"] xy
  have "CHR ''-'' \<notin> set x" "CHR ''-'' \<notin> set y" by auto
  with a b have "0 \<le> a" "b \<le> maxInt" using Atoi_nonneg by blast+
  with ok show ?thesis
    by (intro exI[of _ a] exI[of _ b]) simp
next
  case False
  with assms obtain v where v: "Atoi r = Inr v" "mn \<le> v" "v \<le> mx" "m' = Mapping.update v True m"
    by (auto simp: parseFieldItem_def split: if_splits sum.splits)
  from False v(1) have "0 \<le> v \<and> v \<le> maxInt"
    by (intro Atoi_nonneg) (auto simp: Contains_def)
  with v show ?thesis
    using update_as_fillRange[of v m] by (intro exI[of _ v]) simp
qed

lemma parseFieldItems_Inr:
  assumes "parseFieldItems rs mn mx m = Inr m'" "trueSet m"
  shows "trueSet m' \<and> Mapping.keys m \<subseteq> Mapping.keys m'
    \<and> Mapping.keys m' - Mapping.keys m \<subseteq> {mn..mx} \<inter> {0..maxInt}
    \<and> (rs \<noteq> [] \<longrightarrow> Mapping.keys m' \<noteq> {})"
  using assms
proof (induction rs arbitrary: m)
  case Nil
  then show ?case by simp
next
  case (Cons r rs)
  from Cons.prems obtain m1 where m1: "parseFieldItem r mn mx m = Inr m1"
    and rest: "parseFieldItems rs mn mx m1 = Inr m'"
    by (auto split: sum.splits)
  from parseFieldItem_Inr[OF m1] obtain a b where
    ab: "0 \<le> a" "a \<le> b" "b \<le> maxInt" "mn \<le> a" "b \<le> mx" "m1 = fillRange a b m" by blast
  have t1: "trueSet m1" using ab Cons.prems(2) by (simp add: trueSet_fillRange)
  have k1: "Mapping.keys m1 = Mapping.keys m \<union> {a..b}" using ab by (simp add: keys_fillRange)
  from Cons.IH[OF rest t1] have ih: "trueSet m'" "Mapping.keys m1 \<subseteq> Mapping.keys m'"
    "Mapping.keys m' - Mapping.keys m1 \<subseteq> {mn..mx} \<inter> {0..maxInt}" by auto
  have "a \<in> Mapping.keys m'" using ih(2) k1 ab(2) by auto
  then show ?case using ih k1 ab by auto
qed

lemma Split_nonempty: "Split s c \<noteq> []"
  by (induction s) (auto split: list.splits)

lemma parseField_Inr:
  assumes "parseField s mn mx = Inr f"
  shows "(Field_all f \<and> Field_values f = Mapping.empty \<and> s = ''*'')
     \<or> (\<not> Field_all f \<and> s \<noteq> ''*'' \<and> trueSet (Field_values f) \<and> Mapping.keys (Field_values f) \<noteq> {}
         \<and> Mapping.keys (Field_values f) \<subseteq> {mn..mx} \<inter> {0..maxInt})"
proof (cases "s = ''*''")
  case True
  with assms show ?thesis by (auto simp: parseField_def)
next
  case False
  with assms obtain m where m: "parseFieldItems (Split s (CHR '','')) mn mx Mapping.empty = Inr m"
    and f: "f = \<lparr>Field_values = m, Field_all = False\<rparr>"
    by (auto simp: parseField_def split: sum.splits)
  from parseFieldItems_Inr[OF m trueSet_empty] Split_nonempty[of s "CHR '',''"]
  show ?thesis using False f by auto
qed

subsection \<open>Runs of consecutive values\<close>

lemma digits_no_char: "list_all isDigit s \<Longrightarrow> \<not> isDigit c \<Longrightarrow> c \<notin> set s"
  by (auto simp: list_all_iff)

lemma not_digit_chars:
  "\<not> isDigit (CHR ''-'')" "\<not> isDigit (CHR '','')" "\<not> isDigit (CHR '':'')"
  "\<not> isDigit (CHR ''*'')" "\<not> isDigit (CHR '';'')" "\<not> isDigit (CHR 0x20)"
  by (simp_all add: isDigit_def)

lemma fmtRun_chars:
  assumes "0 \<le> a" "0 \<le> b"
  shows "\<forall>c\<in>set (fmtRun a b). isDigit c \<or> c = CHR ''-''"
  using digits_fmtD[OF assms(1)] digits_fmtD[OF assms(2)]
  by (auto simp: fmtRun_def list_all_iff)

lemma fmtRun_nonempty: "0 \<le> a \<Longrightarrow> fmtRun a b \<noteq> []"
  using digits_fmtD[of a] by (auto simp: fmtRun_def)

lemma parseFieldItem_fmtRun:
  assumes "0 \<le> a" "a \<le> b" "b \<le> maxInt" "mn \<le> a" "b \<le> mx"
  shows "parseFieldItem (fmtRun a b) mn mx m = Inr (fillRange a b m)"
proof (cases "a = b")
  case True
  have "CHR ''-'' \<notin> set (fmtD a)"
    using digits_fmtD[OF assms(1)] by (simp add: digits_no_char not_digit_chars)
  moreover have "Atoi (fmtD a) = Inr a" using assms True by (simp add: Atoi_fmtD)
  ultimately show ?thesis
    using True assms by (simp add: parseFieldItem_def fmtRun_def Contains_def update_as_fillRange)
next
  case False
  have b0: "0 \<le> b" using assms by simp
  have na: "CHR ''-'' \<notin> set (fmtD a)"
    using digits_fmtD[OF assms(1)] by (simp add: digits_no_char not_digit_chars)
  have nb: "CHR ''-'' \<notin> set (fmtD b)"
    using digits_fmtD[OF b0] by (simp add: digits_no_char not_digit_chars)
  have sp: "Split (fmtD a @ CHR ''-'' # fmtD b) (CHR ''-'') = [fmtD a, fmtD b]"
    by (simp add: Split_append_sep[OF na] Split_no_sep[OF nb])
  have "Atoi (fmtD a) = Inr a" "Atoi (fmtD b) = Inr b"
    using assms b0 by (simp_all add: Atoi_fmtD)
  then show ?thesis
    using False assms sp by (simp add: parseFieldItem_def fmtRun_def Contains_def)
qed

lemma runsLoop_acc: "runsLoop vs s p acc = acc @ runsLoop vs s p []"
proof (induction vs arbitrary: s p acc)
  case Nil
  show ?case by simp
next
  case (Cons v vs)
  show ?case
  proof (cases "v \<noteq> p + 1")
    case True
    then show ?thesis
      using Cons.IH[of v v "acc @ [fmtRun s p]"] Cons.IH[of v v "[fmtRun s p]"] by simp
  next
    case False
    then show ?thesis using Cons.IH[of s v acc] by simp
  qed
qed

lemma runsLoop_chars:
  assumes "0 \<le> s" "0 \<le> p" "\<forall>v\<in>set vs. 0 \<le> v"
  shows "\<forall>x\<in>set (runsLoop vs s p []). x \<noteq> [] \<and> (\<forall>c\<in>set x. isDigit c \<or> c = CHR ''-'')"
  using assms
proof (induction vs arbitrary: s p)
  case Nil
  then show ?case using fmtRun_chars[of s p] fmtRun_nonempty[of s p] by simp
next
  case (Cons v vs)
  show ?case
  proof (cases "v \<noteq> p + 1")
    case True
    have "runsLoop (v # vs) s p [] = fmtRun s p # runsLoop vs v v []"
      using True runsLoop_acc[of vs v v "[fmtRun s p]"] by simp
    then show ?thesis
      using Cons.IH[of v v] Cons.prems fmtRun_chars[of s p] fmtRun_nonempty[of s p] by simp
  next
    case False
    then show ?thesis using Cons.IH[of s v] Cons.prems by simp
  qed
qed

lemma runsLoop_nonempty: "runsLoop vs s p [] \<noteq> []"
proof (induction vs arbitrary: s p)
  case Nil
  show ?case by simp
next
  case (Cons v vs)
  show ?case
  proof (cases "v \<noteq> p + 1")
    case True
    then show ?thesis using runsLoop_acc[of vs v v "[fmtRun s p]"] by simp
  next
    case False
    then show ?thesis using Cons.IH[of s v] by simp
  qed
qed

lemma parseFieldItems_runsLoop:
  assumes "0 \<le> s" "s \<le> p" "mn \<le> s" "sorted_wrt (<) (p # vs)"
    and "\<forall>v\<in>set (p # vs). v \<le> mx \<and> v \<le> maxInt"
  shows "\<exists>m'. parseFieldItems (runsLoop vs s p []) mn mx m = Inr m'
    \<and> (\<forall>k. Mapping.lookup m' k
          = (if k \<in> {s..p} \<union> set vs then Some True else Mapping.lookup m k))"
  using assms
proof (induction vs arbitrary: s p m)
  case Nil
  then show ?case by (simp add: parseFieldItem_fmtRun lookup_fillRange)
next
  case (Cons v vs)
  have pv: "p < v" using Cons.prems(4) by simp
  have item: "parseFieldItem (fmtRun s p) mn mx m = Inr (fillRange s p m)"
    using Cons.prems by (simp add: parseFieldItem_fmtRun)
  show ?case
  proof (cases "v \<noteq> p + 1")
    case True
    have unfold: "runsLoop (v # vs) s p [] = fmtRun s p # runsLoop vs v v []"
      using True runsLoop_acc[of vs v v "[fmtRun s p]"] by simp
    have "\<exists>m'. parseFieldItems (runsLoop vs v v []) mn mx (fillRange s p m) = Inr m'
      \<and> (\<forall>k. Mapping.lookup m' k
            = (if k \<in> {v..v} \<union> set vs then Some True else Mapping.lookup (fillRange s p m) k))"
      using Cons.prems pv by (intro Cons.IH) auto
    then obtain m' where m': "parseFieldItems (runsLoop vs v v []) mn mx (fillRange s p m) = Inr m'"
      "\<And>k. Mapping.lookup m' k
            = (if k \<in> {v..v} \<union> set vs then Some True else Mapping.lookup (fillRange s p m) k)"
      by blast
    show ?thesis
      unfolding unfold using item m' by (intro exI[of _ m']) (auto simp: lookup_fillRange)
  next
    case False
    then have v: "v = p + 1" by simp
    have "\<exists>m'. parseFieldItems (runsLoop vs s v []) mn mx m = Inr m'
      \<and> (\<forall>k. Mapping.lookup m' k
            = (if k \<in> {s..v} \<union> set vs then Some True else Mapping.lookup m k))"
      using Cons.prems pv by (intro Cons.IH) auto
    then obtain m' where m': "parseFieldItems (runsLoop vs s v []) mn mx m = Inr m'"
      "\<And>k. Mapping.lookup m' k
            = (if k \<in> {s..v} \<union> set vs then Some True else Mapping.lookup m k)"
      by blast
    have "{s..v} \<union> set vs = {s..p} \<union> set (v # vs)" using v Cons.prems(2) by auto
    then show ?thesis
      using m' v by (intro exI[of _ m']) simp
  qed
qed

subsection \<open>Matching\<close>

lemma trueSet_lookup_default:
  "trueSet m \<Longrightarrow> Mapping.lookup_default False m v = (v \<in> Mapping.keys m)"
  by (simp add: trueSet_def Mapping.lookup_default_def)

lemma parseTimeRange_overnight:
  "parseTimeRange s = Inr tr \<Longrightarrow> TimeRange_overnight tr = (TimeRange_end tr < TimeRange_start tr)"
  by (auto simp: parseTimeRange_def Let_def split: if_splits sum.splits prod.splits)

lemma parseField_matches:
  assumes "parseField s mn mx = Inr f"
  shows "Field_matches f v = spec_Field_matches f v"
  using parseField_Inr[OF assms]
  by (auto simp: Field_matches_def spec_Field_matches_def trueSet_lookup_default)

lemma parseRule_Inr:
  assumes "parseRule s = Inr r"
  shows "\<exists>a b c d. Fields s = [a, b, c, d] \<and> parseTimeRange a = Inr (Rule_timeRange r)
     \<and> parseField b 0 6 = Inr (Rule_dow r) \<and> parseField c 1 31 = Inr (Rule_dom r)
     \<and> parseField d 1 12 = Inr (Rule_month r)"
proof -
  from assms have len: "length (Fields s) = 4"
    by (auto simp: parseRule_def Let_def split: if_splits)
  then obtain a b c d where abcd: "Fields s = [a, b, c, d]"
    by (auto simp: length_Suc_conv numeral_eq_Suc)
  with assms show ?thesis
    by (auto simp: parseRule_def Let_def split: if_splits sum.splits)
qed

lemma currentTime_seconds:
  "Time_Hour t * Hour + Time_Minute t * Minute + Time_Second t * Second
   = secondsSinceMidnight t * Second"
  by (simp add: secondsSinceMidnight_def Hour_def Minute_def Second_def algebra_simps)

lemma Match_iff: "Match rs t = (\<exists>r\<in>set rs. Rule_matches r t)"
  by (induction rs) auto

lemma ordered_keys_no_keys: "Mapping.keys m = {} \<Longrightarrow> Mapping.ordered_keys m = []"
  by (simp add: Mapping.ordered_keys_def)

lemma lookup_default_no_keys: "Mapping.keys m = {} \<Longrightarrow> Mapping.lookup_default d m v = d"
  by (auto simp: Mapping.lookup_default_def keys_dom_lookup split: option.splits)

subsection \<open>Unfolding the definitions on concrete input\<close>

lemmas eval_defs = parseRule_def Fields_def spaceWidth_def isSpaceRune_def parseTimeRange_def
  parseTime_def Atoi_def isDigit_def minInt_def maxInt_def Hour_def Minute_def Second_def
  parseField_def parseFieldItem_def Contains_def

subsection \<open>The values of the items\<close>

lemma parseFieldItem_keys:
  assumes "parseFieldItem r mn mx m = Inr m'"
  shows "Mapping.keys m' = Mapping.keys m \<union> itemValues r"
proof (cases "Contains r (CHR ''-'')")
  case True
  with assms obtain x y a b where "Split r (CHR ''-'') = [x, y]"
    "Atoi x = Inr a" "Atoi y = Inr b" "m' = fillRange a b m"
    by (auto simp: parseFieldItem_def Let_def length_Suc_conv numeral_eq_Suc
        split: if_splits sum.splits)
  with True show ?thesis by (simp add: itemValues_def keys_fillRange)
next
  case False
  with assms obtain v where "Atoi r = Inr v" "m' = Mapping.update v True m"
    by (auto simp: parseFieldItem_def split: if_splits sum.splits)
  with False show ?thesis by (simp add: itemValues_def)
qed

lemma parseFieldItems_keys:
  assumes "parseFieldItems rs mn mx m = Inr m'"
  shows "Mapping.keys m' = Mapping.keys m \<union> (\<Union>r\<in>set rs. itemValues r)"
  using assms
proof (induction rs arbitrary: m)
  case Nil
  then show ?case by simp
next
  case (Cons r rs)
  from Cons.prems obtain m1 where m1: "parseFieldItem r mn mx m = Inr m1"
    and rest: "parseFieldItems rs mn mx m1 = Inr m'"
    by (auto split: sum.splits)
  show ?case
    using Cons.IH[OF rest] parseFieldItem_keys[OF m1] by auto
qed

lemma parseField_keys:
  assumes "parseField s mn mx = Inr f" "s \<noteq> ''*''"
  shows "Mapping.keys (Field_values f) = tokenValues s"
proof -
  from assms obtain m where m: "parseFieldItems (Split s (CHR '','')) mn mx Mapping.empty = Inr m"
    and f: "f = \<lparr>Field_values = m, Field_all = False\<rparr>"
    by (auto simp: parseField_def split: sum.splits)
  show ?thesis using parseFieldItems_keys[OF m] f by (simp add: tokenValues_def)
qed

lemma set_Join: "set (Join xs sep) \<subseteq> (\<Union>x\<in>set xs. set x) \<union> set sep"
  by (induction xs sep rule: Join.induct) auto

lemma parseField_Field_String:
  assumes "parseField s mn mx = Inr f"
  shows "parseField (Field_String f) mn mx = Inr f
    \<and> (\<forall>c\<in>set (Field_String f). isDigit c \<or> c = CHR ''-'' \<or> c = CHR '','' \<or> c = CHR ''*'')
    \<and> Field_String f \<noteq> []"
proof (cases "Field_all f")
  case True
  with parseField_Inr[OF assms] have "f = \<lparr>Field_values = Mapping.empty, Field_all = True\<rparr>"
    by simp
  then show ?thesis by (simp add: Field_String_def parseField_def)
next
  case False
  define K where "K = Mapping.keys (Field_values f)"
  from parseField_Inr[OF assms] False have ts: "trueSet (Field_values f)" and ne: "K \<noteq> {}"
    and sub: "K \<subseteq> {mn..mx} \<inter> {0..maxInt}" by (auto simp: K_def)
  have fin: "finite K" using sub by (rule finite_subset) simp
  define ks where "ks = Mapping.ordered_keys (Field_values f)"
  have ks: "set ks = K" "sorted_wrt (<) ks"
    using fin by (simp_all add: ks_def K_def Mapping.ordered_keys_def)
  with ne obtain v vs where vvs: "ks = v # vs" by (cases ks) auto
  define runs where "runs = runsLoop vs v v []"
  have str: "Field_String f = Join runs '',''"
    using False vvs by (simp add: Field_String_def ks_def[symmetric] runs_def)
  have bounds: "\<forall>k\<in>set (v # vs). 0 \<le> k \<and> mn \<le> k \<and> k \<le> mx \<and> k \<le> maxInt"
    using ks(1) sub vvs by auto
  have chars: "\<forall>x\<in>set runs. x \<noteq> [] \<and> (\<forall>c\<in>set x. isDigit c \<or> c = CHR ''-'')"
    unfolding runs_def using bounds by (intro runsLoop_chars) auto
  have runs_ne: "runs \<noteq> []" by (simp add: runs_def runsLoop_nonempty)
  have nocomma: "\<forall>x\<in>set runs. CHR '','' \<notin> set x"
    using chars not_digit_chars by auto
  have split: "Split (Field_String f) (CHR '','') = runs"
    unfolding str using Split_Join[OF runs_ne nocomma] by simp
  have fchars: "\<forall>c\<in>set (Field_String f). isDigit c \<or> c = CHR ''-'' \<or> c = CHR '',''"
    unfolding str using set_Join[of runs "'',''"] chars by auto
  then have nostar: "Field_String f \<noteq> ''*''"
    using not_digit_chars by auto
  have nonempty: "Field_String f \<noteq> []"
  proof -
    obtain x xs where "runs = x # xs" using runs_ne by (cases runs) auto
    moreover from this chars have "x \<noteq> []" by simp
    ultimately show ?thesis unfolding str by (cases xs) auto
  qed
  have "\<exists>m'. parseFieldItems (runsLoop vs v v []) mn mx Mapping.empty = Inr m'
    \<and> (\<forall>k. Mapping.lookup m' k
          = (if k \<in> {v..v} \<union> set vs then Some True else Mapping.lookup Mapping.empty k))"
    using bounds ks(2) vvs by (intro parseFieldItems_runsLoop) auto
  then obtain m' where m': "parseFieldItems runs mn mx Mapping.empty = Inr m'"
    "\<And>k. Mapping.lookup m' k = (if k \<in> {v..v} \<union> set vs then Some True else None)"
    by (auto simp: runs_def)
  have "{v..v} \<union> set vs = K" using ks(1) vvs by auto
  then have "Mapping.lookup m' k = (if k \<in> K then Some True else None)" for k
    using m'(2)[of k] by simp
  moreover have "Mapping.lookup (Field_values f) k = (if k \<in> K then Some True else None)" for k
    using ts by (simp add: trueSet_def K_def)
  ultimately have "Mapping.lookup m' k = Mapping.lookup (Field_values f) k" for k
    by simp
  then have "m' = Field_values f" by (rule mapping_eqI)
  then have "parseField (Field_String f) mn mx = Inr f"
    using nostar split m'(1) False by (simp add: parseField_def)
  then show ?thesis using fchars nonempty by auto
qed

lemma digitChar_numerals:
  "digitChar 0 = CHR ''0''" "digitChar 1 = CHR ''1''" "digitChar 2 = CHR ''2''"
  "digitChar 3 = CHR ''3''" "digitChar 4 = CHR ''4''" "digitChar 5 = CHR ''5''"
  "digitChar 6 = CHR ''6''" "digitChar 7 = CHR ''7''" "digitChar 8 = CHR ''8''"
  "digitChar 9 = CHR ''9''" "digitChar (Suc 0) = CHR ''1''"
  by code_simp+

lemmas print_defs = Field_String_def fmtRun_def fmtD_def fmt02D_def natDigits.simps
  digitChar_numerals fillRange.simps

lemma parseFieldItem_isl_indep:
  "isl (parseFieldItem r mn mx m) = isl (parseFieldItem r mn mx m2)"
  by (simp add: parseFieldItem_def Let_def split: sum.splits)

lemma parseFieldItems_isl:
  "isl (parseFieldItems rs mn mx m) = (\<exists>r\<in>set rs. isl (parseFieldItem r mn mx m0))"
proof (induction rs arbitrary: m)
  case Nil
  show ?case by simp
next
  case (Cons r rs)
  show ?case
  proof (cases "parseFieldItem r mn mx m")
    case (Inl e)
    then have "isl (parseFieldItem r mn mx m0)"
      using parseFieldItem_isl_indep[of r mn mx m m0] by simp
    with Inl show ?thesis by simp
  next
    case (Inr m1)
    then have "\<not> isl (parseFieldItem r mn mx m0)"
      using parseFieldItem_isl_indep[of r mn mx m m0] by simp
    with Inr Cons.IH[of m1] show ?thesis by simp
  qed
qed

lemma parseField_isl:
  "s \<noteq> ''*'' \<Longrightarrow> isl (parseField s mn mx)
     = (\<exists>r\<in>set (Split s (CHR '','')). isl (parseFieldItem r mn mx m0))"
  using parseFieldItems_isl[of "Split s (CHR '','')" mn mx Mapping.empty m0]
  by (cases "parseFieldItems (Split s (CHR '','')) mn mx Mapping.empty")
    (auto simp: parseField_def)

subsection \<open>Times of day\<close>

lemma parseTime_accepts: "(\<not> isl (parseTime a)) = spec_timeOfDay a"
proof -
  consider (short) "length (Split a (CHR '':'')) < 2" | (two) x y where "Split a (CHR '':'') = [x, y]"
    | (three) x y z where "Split a (CHR '':'') = [x, y, z]" | (long) "3 < length (Split a (CHR '':''))"
  proof -
    have "length (Split a (CHR '':'')) < 2 \<or> length (Split a (CHR '':'')) = 2
      \<or> length (Split a (CHR '':'')) = 3 \<or> 3 < length (Split a (CHR '':''))" by arith
    then show ?thesis
      using that by (auto simp: length_Suc_conv numeral_eq_Suc)
  qed
  then show ?thesis
  proof cases
    case short
    then have "parseTime a = Inl ErrTimeFormat" by (simp add: parseTime_def)
    moreover have "\<not> spec_timeOfDay a"
      using short
      by (cases "Split a (CHR '':'')") (auto simp: spec_timeOfDay_def split: list.splits sum.splits)
    ultimately show ?thesis by simp
  next
    case two
    then show ?thesis
      by (auto simp: parseTime_def spec_timeOfDay_def split: sum.splits)
  next
    case three
    then show ?thesis
      by (auto simp: parseTime_def spec_timeOfDay_def split: sum.splits)
  next
    case long
    then have "parseTime a = Inl ErrTimeFormat" by (simp add: parseTime_def)
    moreover have "\<not> spec_timeOfDay a"
    proof -
      from long have "Suc (Suc (Suc (Suc 0))) \<le> length (Split a (CHR '':''))" by simp
      then obtain x y z w ws where "Split a (CHR '':'') = x # y # z # w # ws"
        by (auto simp: Suc_le_length_iff)
      then show ?thesis by (auto simp: spec_timeOfDay_def split: sum.splits)
    qed
    ultimately show ?thesis by simp
  qed
qed

lemma parseTimeRange_accepts:
  assumes "s \<noteq> ''*''"
  shows "(\<not> isl (parseTimeRange s))
    = (\<exists>a b. Split s (CHR ''-'') = [a, b] \<and> spec_timeOfDay a \<and> spec_timeOfDay b)"
proof (cases "length (Split s (CHR ''-'')) = 2")
  case True
  then obtain a b where ab: "Split s (CHR ''-'') = [a, b]"
    by (auto simp: length_Suc_conv numeral_eq_Suc)
  have "(\<not> isl (parseTimeRange s)) = (\<not> isl (parseTime a) \<and> \<not> isl (parseTime b))"
    using assms ab by (auto simp: parseTimeRange_def split: sum.splits prod.splits)
  then show ?thesis using ab by (simp add: parseTime_accepts)
next
  case False
  then have "parseTimeRange s = Inl ErrTimeRangeFormat"
    using assms by (simp add: parseTimeRange_def)
  with False show ?thesis by auto
qed

subsection \<open>The loop over the lines\<close>





lemma spaceWidth_space: "spaceWidth (CHR 0x20 # s) = 1"
  by (simp add: spaceWidth_def isSpaceRune_def)





lemmas trim_defs = Parse_def TrimSpace_def trimLeft.simps trimRight.simps spaceWidthLast_def
  dropCR_def

subsection \<open>White space around printed tokens\<close>

lemma tokChar_ascii: "tokChar c \<Longrightarrow> (33 :: nat) \<le> of_char c \<and> (of_char c :: nat) < 128"
  by (auto simp: tokChar_def isDigit_def)

lemma isSpaceRune_first:
  assumes "isSpaceRune (c # s)"
  shows "(of_char c :: nat) \<le> 32 \<or> (128 :: nat) \<le> of_char c"
  using assms by (auto simp: isSpaceRune_def split: list.splits)

lemma isSpaceRune_length: "isSpaceRune bs \<Longrightarrow> length bs \<le> 3"
  by (auto simp: isSpaceRune_def split: list.splits)

lemma isSpaceRune_last:
  assumes "isSpaceRune (s @ [c])"
  shows "(of_char c :: nat) \<le> 32 \<or> (128 :: nat) \<le> of_char c"
proof -
  from isSpaceRune_length[OF assms] have "length s \<le> 2" by simp
  then consider "s = []" | a where "s = [a]" | a b where "s = [a, b]"
    by (cases s; cases "tl s"; cases "tl (tl s)") auto
  then show ?thesis
    using assms by cases (auto simp: isSpaceRune_def)
qed

lemma spaceWidth_tokChar: "tokChar c \<Longrightarrow> spaceWidth (c # s) = 0"
proof -
  assume t: "tokChar c"
  have "\<not> isSpaceRune (c # r)" for r
    using isSpaceRune_first[of c r] tokChar_ascii[OF t] by auto
  then show ?thesis by (simp add: spaceWidth_def take_Suc_conv_app_nth numeral_eq_Suc)
qed

lemma spaceWidthLast_tokChar: "tokChar c \<Longrightarrow> spaceWidthLast (s @ [c]) = 0"
proof -
  assume t: "tokChar c"
  have ns: "\<not> isSpaceRune (r @ [c])" for r
    using isSpaceRune_last[of r c] tokChar_ascii[OF t] by auto
  show ?thesis using ns ns[of "[]"] by (simp add: spaceWidthLast_def)
qed

lemma trimLeft_tokChar: "tokChar c \<Longrightarrow> trimLeft (c # s) = c # s"
  by (subst trimLeft.simps) (simp add: spaceWidth_tokChar)

lemma trimRight_tokChar: "tokChar c \<Longrightarrow> trimRight (s @ [c]) = s @ [c]"
  by (subst trimRight.simps) (simp add: spaceWidthLast_tokChar)

lemma TrimSpace_token:
  assumes "s \<noteq> []" "tokChar (hd s)" "tokChar (last s)"
  shows "TrimSpace s = s" "TrimSpace (CHR 0x20 # s) = s"
proof -
  obtain c r where c: "s = c # r" using assms(1) by (cases s) auto
  obtain r' where l: "s = r' @ [last s]" using assms(1) by (metis append_butlast_last_id)
  have tl: "trimLeft s = s" using c assms(2) trimLeft_tokChar[of c r] by simp
  have tr: "trimRight s = s" using l assms(3) trimRight_tokChar[of "last s" r'] by simp
  show "TrimSpace s = s" by (simp add: TrimSpace_def tl tr)
  have "trimLeft (CHR 0x20 # s) = trimLeft s"
    by (subst trimLeft.simps) (simp add: spaceWidth_space)
  then show "TrimSpace (CHR 0x20 # s) = s" by (simp add: TrimSpace_def tl tr)
qed

lemma fieldsFrom_token:
  "\<forall>c\<in>set tok. tokChar c \<Longrightarrow> fieldsFrom cur (tok @ rest) = fieldsFrom (cur @ tok) rest"
  by (induction tok arbitrary: cur) (simp_all add: spaceWidth_tokChar)

lemma fieldsFrom_space:
  "cur \<noteq> [] \<Longrightarrow> fieldsFrom cur (CHR 0x20 # rest) = cur # fieldsFrom [] rest"
  by (simp add: spaceWidth_space)

lemma Fields_four_tokens:
  assumes "a \<noteq> []" "b \<noteq> []" "c \<noteq> []" "d \<noteq> []"
    and "\<forall>x\<in>set a. tokChar x" "\<forall>x\<in>set b. tokChar x" "\<forall>x\<in>set c. tokChar x"
    and "\<forall>x\<in>set d. tokChar x"
  shows "Fields (a @ '' '' @ b @ '' '' @ c @ '' '' @ d) = [a, b, c, d]"
proof -
  have 1: "fieldsFrom [] (d @ []) = [d]"
    using assms(4,8) by (subst fieldsFrom_token) simp_all
  have 2: "fieldsFrom [] (c @ CHR 0x20 # d) = c # fieldsFrom [] d"
    using assms(3,7) by (subst fieldsFrom_token) (simp_all add: spaceWidth_space)
  have 3: "fieldsFrom [] (b @ CHR 0x20 # c @ CHR 0x20 # d) = b # fieldsFrom [] (c @ CHR 0x20 # d)"
    using assms(2,6) by (subst fieldsFrom_token) (simp_all add: spaceWidth_space)
  have 4: "fieldsFrom [] (a @ CHR 0x20 # b @ CHR 0x20 # c @ CHR 0x20 # d)
      = a # fieldsFrom [] (b @ CHR 0x20 # c @ CHR 0x20 # d)"
    using assms(1,5) by (subst fieldsFrom_token) (simp_all add: spaceWidth_space)
  show ?thesis using 1 2 3 4 by (simp add: Fields_def)
qed

subsection \<open>Durations and printed time ranges\<close>

lemma sdiv_smod_nonneg:
  fixes k l :: int
  assumes "0 \<le> k" "0 < l"
  shows "k sdiv l = k div l" "k smod l = k mod l"
  using assms by (auto simp: signed_divide_int_def signed_modulo_int_def sgn_if)

lemma duration_parts:
  assumes "0 \<le> h" "0 \<le> m" "m \<le> 59" "0 \<le> sec" "sec \<le> 59"
  defines "d \<equiv> h * Hour + m * Minute + sec * Second"
  shows "d sdiv Hour = h" "(d smod Hour) sdiv Minute = m" "(d smod Minute) sdiv Second = sec"
proof -
  have d0: "0 \<le> d" using assms(1,2,4) by (simp add: d_def Hour_def Minute_def Second_def)
  define r where "r = m * Minute + sec * Second"
  have r: "0 \<le> r" "r < Hour"
    using assms(2-5) by (simp_all add: r_def Hour_def Minute_def Second_def)
  have q: "0 \<le> sec * Second" "sec * Second < Minute"
    using assms(4,5) by (simp_all add: Minute_def Second_def)
  have dH: "d = Hour * h + r" by (simp add: d_def r_def)
  have dM: "d = Minute * (h * 60 + m) + sec * Second"
    by (simp add: d_def Hour_def algebra_simps)
  have rM: "r = Minute * m + sec * Second" by (simp add: r_def)
  have "d div Hour = h" by (rule int_div_pos_eq[OF dH r])
  moreover have mh: "d mod Hour = r" by (rule int_mod_pos_eq[OF dH r])
  moreover have "r div Minute = m" by (rule int_div_pos_eq[OF rM q])
  moreover have mm: "d mod Minute = sec * Second" by (rule int_mod_pos_eq[OF dM q])
  moreover have "(sec * Second) div Second = sec" by (simp add: Second_def)
  moreover have "0 < Hour" "0 < Minute" "0 < Second"
    by (simp_all add: Hour_def Minute_def Second_def)
  ultimately show "d sdiv Hour = h" "(d smod Hour) sdiv Minute = m"
    "(d smod Minute) sdiv Second = sec"
    using d0 r(1) q(1) by (simp_all add: sdiv_smod_nonneg)
qed

lemma parseTime_Inr:
  assumes "parseTime a = Inr (d, hs)"
  shows "\<exists>h m sec. 0 \<le> h \<and> h \<le> 23 \<and> 0 \<le> m \<and> m \<le> 59 \<and> 0 \<le> sec \<and> sec \<le> 59
    \<and> d = h * Hour + m * Minute + sec * Second \<and> (\<not> hs \<longrightarrow> sec = 0)"
proof -
  from assms obtain h m sec where
    "\<not> h < 0" "\<not> 23 < h" "\<not> m < 0" "\<not> 59 < m" "\<not> sec < 0" "\<not> 59 < sec"
    "d = h * Hour + m * Minute + sec * Second" "\<not> hs \<longrightarrow> sec = 0"
    by (auto simp: parseTime_def Let_def split: if_splits sum.splits)
  then show ?thesis
    by (intro exI[of _ h] exI[of _ m] exI[of _ sec]) simp
qed

lemma fmt02D_small:
  assumes "0 \<le> v" "v \<le> 59"
  shows "Atoi (fmt02D v) = Inr v" "list_all isDigit (fmt02D v)" "fmt02D v \<noteq> []"
  using assms Atoi_fmt02D[of v] digits_fmt02D[of v] by (simp_all add: maxInt_def)

lemma digits_no_seps:
  assumes "list_all isDigit s"
  shows "CHR '':'' \<notin> set s" "CHR ''-'' \<notin> set s" "CHR '';'' \<notin> set s" "\<forall>c\<in>set s. tokChar c"
  using assms not_digit_chars by (auto simp: list_all_iff tokChar_def)

lemma parseTime_print2:
  assumes "0 \<le> h" "h \<le> 23" "0 \<le> m" "m \<le> 59"
  shows "parseTime (fmt02D h @ '':'' @ fmt02D m) = Inr (h * Hour + m * Minute, False)"
proof -
  have h59: "h \<le> 59" using assms(2) by simp
  note H = fmt02D_small[OF assms(1) h59] and M = fmt02D_small[OF assms(3,4)]
  have "Split (fmt02D h @ CHR '':'' # fmt02D m) (CHR '':'') = [fmt02D h, fmt02D m]"
    using digits_no_seps(1)[OF H(2)] digits_no_seps(1)[OF M(2)]
    by (simp add: Split_append_sep Split_no_sep)
  then show ?thesis using H(1) M(1) assms by (simp add: parseTime_def)
qed

lemma parseTime_print3:
  assumes "0 \<le> h" "h \<le> 23" "0 \<le> m" "m \<le> 59" "0 \<le> sec" "sec \<le> 59"
  shows "parseTime (fmt02D h @ '':'' @ fmt02D m @ '':'' @ fmt02D sec)
    = Inr (h * Hour + m * Minute + sec * Second, True)"
proof -
  have h59: "h \<le> 59" using assms(2) by simp
  note H = fmt02D_small[OF assms(1) h59] and M = fmt02D_small[OF assms(3,4)]
    and S = fmt02D_small[OF assms(5,6)]
  have "Split (fmt02D h @ CHR '':'' # fmt02D m @ CHR '':'' # fmt02D sec) (CHR '':'')
      = [fmt02D h, fmt02D m, fmt02D sec]"
    using digits_no_seps(1)[OF H(2)] digits_no_seps(1)[OF M(2)] digits_no_seps(1)[OF S(2)]
    by (simp add: Split_append_sep Split_no_sep)
  then show ?thesis using H(1) M(1) S(1) assms by (simp add: parseTime_def)
qed

lemma time_chars:
  assumes "0 \<le> h" "0 \<le> m" "0 \<le> sec"
  shows "\<forall>c\<in>set (fmt02D h @ '':'' @ fmt02D m). isDigit c \<or> c = CHR '':''"
    "\<forall>c\<in>set (fmt02D h @ '':'' @ fmt02D m @ '':'' @ fmt02D sec). isDigit c \<or> c = CHR '':''"
  using digits_fmt02D[OF assms(1)] digits_fmt02D[OF assms(2)] digits_fmt02D[OF assms(3)]
  by (auto simp: list_all_iff)

lemma parseTimeRange_join:
  assumes "\<forall>c\<in>set x. isDigit c \<or> c = CHR '':''" "\<forall>c\<in>set y. isDigit c \<or> c = CHR '':''"
    and "x \<noteq> []" "parseTime x = Inr (d1, hs1)" "parseTime y = Inr (d2, hs2)"
  shows "parseTimeRange (x @ ''-'' @ y)
    = Inr \<lparr>TimeRange_start = d1, TimeRange_end = d2, TimeRange_all = False,
           TimeRange_overnight = (d2 < d1), TimeRange_hasSeconds = (hs1 \<or> hs2)\<rparr>"
proof -
  have nx: "CHR ''-'' \<notin> set x" and ny: "CHR ''-'' \<notin> set y"
    using assms(1,2) not_digit_chars by auto
  have sp: "Split (x @ CHR ''-'' # y) (CHR ''-'') = [x, y]"
    by (simp add: Split_append_sep[OF nx] Split_no_sep[OF ny])
  have "x @ CHR ''-'' # y \<noteq> ''*''" using assms(3) by (cases x) auto
  then show ?thesis using sp assms(4,5) by (simp add: parseTimeRange_def)
qed

lemma parseTimeRange_String:
  assumes "parseTimeRange s = Inr tr"
  shows "parseTimeRange (TimeRange_String tr) = Inr tr \<and> TimeRange_String tr \<noteq> []
    \<and> (\<forall>c\<in>set (TimeRange_String tr). tokChar c)"
proof (cases "s = ''*''")
  case True
  with assms show ?thesis
    by (auto simp: parseTimeRange_def TimeRange_String_def tokChar_def)
next
  case False
  with assms obtain a b d1 hs1 d2 hs2 where
    a: "parseTime a = Inr (d1, hs1)" and b: "parseTime b = Inr (d2, hs2)"
    and tr: "tr = \<lparr>TimeRange_start = d1, TimeRange_end = d2, TimeRange_all = False,
           TimeRange_overnight = (d2 < d1), TimeRange_hasSeconds = (hs1 \<or> hs2)\<rparr>"
    by (auto simp: parseTimeRange_def Let_def split: if_splits sum.splits prod.splits)
  from parseTime_Inr[OF a] obtain h1 m1 s1 where
    r1: "0 \<le> h1" "h1 \<le> 23" "0 \<le> m1" "m1 \<le> 59" "0 \<le> s1" "s1 \<le> 59"
    and d1: "d1 = h1 * Hour + m1 * Minute + s1 * Second" and z1: "\<not> hs1 \<longrightarrow> s1 = 0"
    by blast
  from parseTime_Inr[OF b] obtain h2 m2 s2 where
    r2: "0 \<le> h2" "h2 \<le> 23" "0 \<le> m2" "m2 \<le> 59" "0 \<le> s2" "s2 \<le> 59"
    and d2: "d2 = h2 * Hour + m2 * Minute + s2 * Second" and z2: "\<not> hs2 \<longrightarrow> s2 = 0"
    by blast
  note p1 = duration_parts[OF r1(1,3,4,5,6), folded d1]
  note p2 = duration_parts[OF r2(1,3,4,5,6), folded d2]
  show ?thesis
  proof (cases "hs1 \<or> hs2")
    case True
    define x where "x = fmt02D h1 @ '':'' @ fmt02D m1 @ '':'' @ fmt02D s1"
    define y where "y = fmt02D h2 @ '':'' @ fmt02D m2 @ '':'' @ fmt02D s2"
    have str: "TimeRange_String tr = x @ ''-'' @ y"
      using True by (simp add: TimeRange_String_def tr p1 p2 x_def y_def)
    have cx: "\<forall>c\<in>set x. isDigit c \<or> c = CHR '':''" unfolding x_def
      by (rule time_chars(2)[OF r1(1,3,5)])
    have cy: "\<forall>c\<in>set y. isDigit c \<or> c = CHR '':''" unfolding y_def
      by (rule time_chars(2)[OF r2(1,3,5)])
    have nx: "x \<noteq> []" using digits_fmt02D[OF r1(1)] by (simp add: x_def)
    have px: "parseTime x = Inr (d1, True)" unfolding x_def d1 by (rule parseTime_print3[OF r1])
    have py: "parseTime y = Inr (d2, True)" unfolding y_def d2 by (rule parseTime_print3[OF r2])
    have "parseTimeRange (x @ ''-'' @ y) = Inr tr"
      using parseTimeRange_join[OF cx cy nx px py] True by (simp add: tr)
    moreover have "\<forall>c\<in>set (x @ ''-'' @ y). tokChar c"
      using cx cy by (auto simp: tokChar_def)
    ultimately show ?thesis using nx by (simp add: str)
  next
    case False
    then have z: "s1 = 0" "s2 = 0" using z1 z2 by auto
    define x where "x = fmt02D h1 @ '':'' @ fmt02D m1"
    define y where "y = fmt02D h2 @ '':'' @ fmt02D m2"
    have str: "TimeRange_String tr = x @ ''-'' @ y"
      using False by (simp add: TimeRange_String_def tr p1 p2 x_def y_def)
    have cx: "\<forall>c\<in>set x. isDigit c \<or> c = CHR '':''" unfolding x_def
      by (rule time_chars(1)[OF r1(1,3,5)])
    have cy: "\<forall>c\<in>set y. isDigit c \<or> c = CHR '':''" unfolding y_def
      by (rule time_chars(1)[OF r2(1,3,5)])
    have nx: "x \<noteq> []" using digits_fmt02D[OF r1(1)] by (simp add: x_def)
    have px: "parseTime x = Inr (d1, False)"
      unfolding x_def using parseTime_print2[OF r1(1-4)] by (simp add: d1 z)
    have py: "parseTime y = Inr (d2, False)"
      unfolding y_def using parseTime_print2[OF r2(1-4)] by (simp add: d2 z)
    have "parseTimeRange (x @ ''-'' @ y) = Inr tr"
      using parseTimeRange_join[OF cx cy nx px py] False by (simp add: tr)
    moreover have "\<forall>c\<in>set (x @ ''-'' @ y). tokChar c"
      using cx cy by (auto simp: tokChar_def)
    ultimately show ?thesis using nx by (simp add: str)
  qed
qed

subsection \<open>Printed rules and expressions\<close>

lemma parseRule_Rule_String:
  assumes "parseRule s = Inr r"
  shows "parseRule (Rule_String r) = Inr r \<and> Rule_String r \<noteq> []
    \<and> tokChar (hd (Rule_String r)) \<and> tokChar (last (Rule_String r))
    \<and> CHR '';'' \<notin> set (Rule_String r)"
proof -
  from parseRule_Inr[OF assms] obtain a b c d where
    tr: "parseTimeRange a = Inr (Rule_timeRange r)"
    and dow: "parseField b 0 6 = Inr (Rule_dow r)"
    and dom: "parseField c 1 31 = Inr (Rule_dom r)"
    and month: "parseField d 1 12 = Inr (Rule_month r)" by blast
  define T where "T = TimeRange_String (Rule_timeRange r)"
  define D where "D = Field_String (Rule_dow r)"
  define M where "M = Field_String (Rule_dom r)"
  define Y where "Y = Field_String (Rule_month r)"
  have fc: "tokChar c" if "isDigit c \<or> c = CHR ''-'' \<or> c = CHR '','' \<or> c = CHR ''*''" for c
    using that by (auto simp: tokChar_def)
  have T: "parseTimeRange T = Inr (Rule_timeRange r)" "T \<noteq> []" "\<forall>c\<in>set T. tokChar c"
    using parseTimeRange_String[OF tr] by (simp_all add: T_def)
  have D: "parseField D 0 6 = Inr (Rule_dow r)" "D \<noteq> []" "\<forall>c\<in>set D. tokChar c"
    using parseField_Field_String[OF dow] fc by (auto simp: D_def)
  have M: "parseField M 1 31 = Inr (Rule_dom r)" "M \<noteq> []" "\<forall>c\<in>set M. tokChar c"
    using parseField_Field_String[OF dom] fc by (auto simp: M_def)
  have Y: "parseField Y 1 12 = Inr (Rule_month r)" "Y \<noteq> []" "\<forall>c\<in>set Y. tokChar c"
    using parseField_Field_String[OF month] fc by (auto simp: Y_def)
  have str: "Rule_String r = T @ '' '' @ D @ '' '' @ M @ '' '' @ Y"
    by (simp add: Rule_String_def T_def D_def M_def Y_def)
  have fields: "Fields (Rule_String r) = [T, D, M, Y]"
    unfolding str by (rule Fields_four_tokens[OF T(2) D(2) M(2) Y(2) T(3) D(3) M(3) Y(3)])
  have parse: "parseRule (Rule_String r) = Inr r"
    using fields T(1) D(1) M(1) Y(1) by (simp add: parseRule_def)
  have hd: "hd (Rule_String r) = hd T" using T(2) by (simp add: str)
  have last: "last (Rule_String r) = last Y" using Y(2) by (simp add: str)
  have "tokChar (hd T)" "tokChar (last Y)" using T(2,3) Y(2,3) by simp_all
  moreover have "\<not> tokChar (CHR '';'')" by (simp add: tokChar_def isDigit_def)
  then have "CHR '';'' \<notin> set (Rule_String r)"
    using T(3) D(3) M(3) Y(3) by (auto simp: str)
  ultimately show ?thesis using parse hd last T(2) by (simp add: str)
qed

lemma parseRules_Inr:
  assumes "parseRules segs acc = Inr out"
  shows "\<exists>rs. out = acc @ rs \<and> length rs = length segs \<and> (\<forall>r\<in>set rs. \<exists>s. parseRule s = Inr r)"
  using assms
proof (induction segs arbitrary: acc)
  case Nil
  then show ?case by simp
next
  case (Cons seg segs)
  from Cons.prems obtain rule where rule: "parseRule (TrimSpace seg) = Inr rule"
    and rest: "parseRules segs (acc @ [rule]) = Inr out"
    by (auto split: sum.splits)
  from Cons.IH[OF rest] obtain rs where rs: "out = (acc @ [rule]) @ rs" "length rs = length segs"
    "\<forall>r\<in>set rs. \<exists>s. parseRule s = Inr r" by blast
  show ?case
    using rs rule by (intro exI[of _ "rule # rs"]) auto
qed

lemma parseRules_printed:
  assumes "\<forall>r\<in>set rs. \<exists>s. parseRule s = Inr r"
  shows "parseRules (map (\<lambda>r. CHR 0x20 # Rule_String r) rs) acc = Inr (acc @ rs)"
  using assms
proof (induction rs arbitrary: acc)
  case Nil
  show ?case by simp
next
  case (Cons r rs)
  from Cons.prems obtain s where s: "parseRule s = Inr r" by auto
  note R = parseRule_Rule_String[OF s]
  have "TrimSpace (CHR 0x20 # Rule_String r) = Rule_String r"
    using R by (intro TrimSpace_token(2)) simp_all
  then show ?case using R Cons.IH[of "acc @ [r]"] Cons.prems by simp
qed

lemma Split_formatted:
  assumes "xs \<noteq> []" "\<forall>x\<in>set xs. CHR '';'' \<notin> set x"
  shows "Split (Join xs ''; '') (CHR '';'') = hd xs # map (\<lambda>x. CHR 0x20 # x) (tl xs)"
  using assms
proof (induction xs "''; ''" rule: Join.induct)
  case 1
  then show ?case by simp
next
  case (2 x)
  then show ?case by (simp add: Split_no_sep)
next
  case (3 x y ys)
  then show ?case by (simp add: Split_append_sep)
qed

lemma Parse_formatRules:
  assumes "Parse x = Inr rs"
  shows "Parse (formatRules rs) = Inr rs"
proof -
  from parseRules_Inr[of "Split x (CHR '';'')" "[]" rs] assms
  have len: "length rs = length (Split x (CHR '';''))"
    and each: "\<forall>r\<in>set rs. \<exists>s. parseRule s = Inr r"
    by (auto simp: Parse_def)
  from len Split_nonempty[of x "CHR '';''"] obtain r rest where rs: "rs = r # rest"
    by (cases rs) auto
  from each rs obtain s where s: "parseRule s = Inr r" by auto
  note R = parseRule_Rule_String[OF s]
  have nosemi: "\<forall>t\<in>set (map Rule_String rs). CHR '';'' \<notin> set t"
    using each parseRule_Rule_String by auto
  have split: "Split (formatRules rs) (CHR '';'')
      = Rule_String r # map (\<lambda>q. CHR 0x20 # Rule_String q) rest"
    unfolding formatRules_def using Split_formatted[OF _ nosemi] rs by (simp add: comp_def)
  have trim: "TrimSpace (Rule_String r) = Rule_String r"
    using R by (intro TrimSpace_token(1)) simp_all
  have "parseRules (map (\<lambda>q. CHR 0x20 # Rule_String q) rest) [r] = Inr ([r] @ rest)"
    using each rs by (intro parseRules_printed) simp
  then show ?thesis using split trim R rs by (simp add: Parse_def)
qed

section \<open>Matching one rule\<close>

text \<open>
  Claim C1. For a rule that \<open>parseRule\<close> returned and any instant, \<open>Rule.matches\<close> is the
  conjunction of the four constraints as the specification reads them: the month, the day of
  the month and the weekday each lie in their Field (any value when the Field is "all", set
  membership otherwise), and the seconds since midnight lie in the TimeRange (always when it
  is all-day; at or after the start or at or before the end when the end is before the start;
  between start and end otherwise, both inclusive).
\<close>

theorem Rule_matches_conjunction:
  assumes "parseRule s = Inr r"
  shows "Rule_matches r t =
    (spec_Field_matches (Rule_month r) (Time_Month t)
     \<and> spec_Field_matches (Rule_dom r) (Time_Day t)
     \<and> spec_Field_matches (Rule_dow r) (Time_Weekday t)
     \<and> spec_TimeRange_matches (Rule_timeRange r) (secondsSinceMidnight t))"
proof -
  from parseRule_Inr[OF assms] obtain a b c d where
    tr: "parseTimeRange a = Inr (Rule_timeRange r)"
    and dow: "parseField b 0 6 = Inr (Rule_dow r)"
    and dom: "parseField c 1 31 = Inr (Rule_dom r)"
    and month: "parseField d 1 12 = Inr (Rule_month r)" by blast
  have ov: "TimeRange_overnight (Rule_timeRange r)
      = (TimeRange_end (Rule_timeRange r) < TimeRange_start (Rule_timeRange r))"
    by (rule parseTimeRange_overnight[OF tr])
  show ?thesis
    unfolding Rule_matches_def Let_def currentTime_seconds
      parseField_matches[OF dow] parseField_matches[OF dom] parseField_matches[OF month]
      spec_TimeRange_matches_def ov
    by auto
qed

theorem Rule_matches_conjunction_witness:
  "parseRule ''09:00-17:00 1-5 1-7 3,6,9,12'' =
     Inr \<lparr>Rule_timeRange = \<lparr>TimeRange_start = 32400000000000, TimeRange_end = 61200000000000,
             TimeRange_all = False, TimeRange_overnight = False, TimeRange_hasSeconds = False\<rparr>,
          Rule_dow = \<lparr>Field_values = fillRange 1 5 Mapping.empty, Field_all = False\<rparr>,
          Rule_dom = \<lparr>Field_values = fillRange 1 7 Mapping.empty, Field_all = False\<rparr>,
          Rule_month = \<lparr>Field_values = Mapping.update 12 True (Mapping.update 9 True
             (Mapping.update 6 True (Mapping.update 3 True Mapping.empty))), Field_all = False\<rparr>\<rparr>
   \<and> Rule_matches \<lparr>Rule_timeRange = \<lparr>TimeRange_start = 32400000000000, TimeRange_end = 61200000000000,
             TimeRange_all = False, TimeRange_overnight = False, TimeRange_hasSeconds = False\<rparr>,
          Rule_dow = \<lparr>Field_values = fillRange 1 5 Mapping.empty, Field_all = False\<rparr>,
          Rule_dom = \<lparr>Field_values = fillRange 1 7 Mapping.empty, Field_all = False\<rparr>,
          Rule_month = \<lparr>Field_values = Mapping.update 12 True (Mapping.update 9 True
             (Mapping.update 6 True (Mapping.update 3 True Mapping.empty))), Field_all = False\<rparr>\<rparr>
        \<lparr>Time_Month = 3, Time_Day = 1, Time_Weekday = 5, Time_Hour = 13, Time_Minute = 0,
          Time_Second = 0\<rparr>"
  (is "?p = Inr ?r \<and> Rule_matches ?r ?t")
proof -
  have p: "?p = Inr ?r"
    by (simp add: parseRule_def Fields_def spaceWidth_def isSpaceRune_def parseTimeRange_def parseTime_def Atoi_def isDigit_def
      minInt_def maxInt_def Hour_def Minute_def Second_def parseField_def parseFieldItem_def Contains_def)
  have "spec_Field_matches (Rule_month ?r) 3" "spec_Field_matches (Rule_dom ?r) 1"
     "spec_Field_matches (Rule_dow ?r) 5"
    by (simp_all add: spec_Field_matches_def keys_fillRange)
  moreover have "spec_TimeRange_matches (Rule_timeRange ?r) (secondsSinceMidnight ?t)"
    by (simp add: spec_TimeRange_matches_def secondsSinceMidnight_def Second_def)
  ultimately show ?thesis
    using p Rule_matches_conjunction[OF p, of ?t] by simp
qed

text \<open>
  Claim C2. Matching works on seconds and both ends of a range count: the one rule of
  \<open>"09:00-17:00 * * *"\<close> rejects every instant at 08:59:59 or 17:00:01 and accepts every
  instant at 09:00:00 or 17:00:00; the one rule of \<open>"23:00-02:00 * * *"\<close> rejects every
  instant at 22:59:59 or 02:00:01 and accepts every instant at 23:00:00, 00:00:00, 01:30:00 or
  02:00:00, whatever the date.
\<close>

theorem seconds_resolution_inclusive:
  "Parse ''09:00-17:00 * * *'' = Inr [officeHoursRule]
   \<and> (\<forall>t. \<not> Rule_matches officeHoursRule (t\<lparr>Time_Hour := 8, Time_Minute := 59, Time_Second := 59\<rparr>))
   \<and> (\<forall>t. \<not> Rule_matches officeHoursRule (t\<lparr>Time_Hour := 17, Time_Minute := 0, Time_Second := 1\<rparr>))
   \<and> (\<forall>t. Rule_matches officeHoursRule (t\<lparr>Time_Hour := 9, Time_Minute := 0, Time_Second := 0\<rparr>))
   \<and> (\<forall>t. Rule_matches officeHoursRule (t\<lparr>Time_Hour := 17, Time_Minute := 0, Time_Second := 0\<rparr>))
   \<and> Parse ''23:00-02:00 * * *'' = Inr [nightRule]
   \<and> (\<forall>t. \<not> Rule_matches nightRule (t\<lparr>Time_Hour := 22, Time_Minute := 59, Time_Second := 59\<rparr>))
   \<and> (\<forall>t. \<not> Rule_matches nightRule (t\<lparr>Time_Hour := 2, Time_Minute := 0, Time_Second := 1\<rparr>))
   \<and> (\<forall>t. Rule_matches nightRule (t\<lparr>Time_Hour := 23, Time_Minute := 0, Time_Second := 0\<rparr>))
   \<and> (\<forall>t. Rule_matches nightRule (t\<lparr>Time_Hour := 0, Time_Minute := 0, Time_Second := 0\<rparr>))
   \<and> (\<forall>t. Rule_matches nightRule (t\<lparr>Time_Hour := 1, Time_Minute := 30, Time_Second := 0\<rparr>))
   \<and> (\<forall>t. Rule_matches nightRule (t\<lparr>Time_Hour := 2, Time_Minute := 0, Time_Second := 0\<rparr>))"
proof -
  have p1: "Parse ''09:00-17:00 * * *'' = Inr [officeHoursRule]"
    by (simp add: Parse_def TrimSpace_def trimLeft.simps trimRight.simps spaceWidthLast_def
        eval_defs officeHoursRule_def anyValue_def)
  have p2: "Parse ''23:00-02:00 * * *'' = Inr [nightRule]"
    by (simp add: Parse_def TrimSpace_def trimLeft.simps trimRight.simps spaceWidthLast_def
        eval_defs nightRule_def anyValue_def)
  show ?thesis
    unfolding p1 p2
    by (simp add: Rule_matches_def officeHoursRule_def nightRule_def anyValue_def
        Field_matches_def Hour_def Minute_def Second_def)
qed

section \<open>Matching a list of rules\<close>

text \<open>
  Claim C3. \<open>Match\<close> holds exactly when some rule of the list matches the instant; it never
  holds of the empty list; and two lists with the same rules in another order give the same
  answer.
\<close>

theorem Match_any_rule:
  "(Match rs t \<longleftrightarrow> (\<exists>r\<in>set rs. Rule_matches r t))
   \<and> \<not> Match [] t
   \<and> (mset rs = mset rs' \<longrightarrow> Match rs t = Match rs' t)"
proof -
  have "Match rs t = Match rs' t" if "mset rs = mset rs'"
  proof -
    from that have "set rs = set rs'" by (rule mset_eq_setD)
    then show ?thesis by (simp add: Match_iff)
  qed
  then show ?thesis by (simp add: Match_iff)
qed

theorem Match_any_rule_witness:
  "mset [weekendRule, anyTimeRule] = mset [anyTimeRule, weekendRule]
   \<and> Match [weekendRule, anyTimeRule] monday1830 = Match [anyTimeRule, weekendRule] monday1830
   \<and> Match [weekendRule, anyTimeRule] monday1830
   \<and> \<not> Rule_matches weekendRule monday1830"
proof -
  have h: "mset [weekendRule, anyTimeRule] = mset [anyTimeRule, weekendRule]" by simp
  have m: "Rule_matches anyTimeRule monday1830"
    by (simp add: Rule_matches_def anyTimeRule_def Field_matches_def anyValue_def allDay_def)
  have n: "\<not> Rule_matches weekendRule monday1830"
    by (simp add: Rule_matches_def weekendRule_def Field_matches_def anyValue_def
        monday1830_def Mapping.lookup_default_def)
  show ?thesis
    using h m n Match_any_rule[of "[weekendRule, anyTimeRule]" monday1830 "[anyTimeRule, weekendRule]"]
    by simp
qed

section \<open>The number of fields of a rule\<close>

text \<open>
  Claim C8. \<open>parseRule\<close> succeeds only on a segment that \<open>strings.Fields\<close> splits into
  exactly four tokens, which it reads as time, day of week, day of month and month, in this
  order; with any other number of tokens it fails with the field-count error, as for the
  three tokens of \<open>"17:20-21:35 1-5 *"\<close> and for the empty segment.
\<close>

theorem parseRule_field_count:
  "(parseRule s = Inr r \<longrightarrow>
      (\<exists>a b c d. Fields s = [a, b, c, d] \<and> parseTimeRange a = Inr (Rule_timeRange r)
        \<and> parseField b 0 6 = Inr (Rule_dow r) \<and> parseField c 1 31 = Inr (Rule_dom r)
        \<and> parseField d 1 12 = Inr (Rule_month r)))
   \<and> (length (Fields s) \<noteq> 4 \<longrightarrow> parseRule s = Inl ErrFieldCount)
   \<and> Fields ''17:20-21:35 1-5 *'' = [''17:20-21:35'', ''1-5'', ''*'']
   \<and> parseRule ''17:20-21:35 1-5 *'' = Inl ErrFieldCount
   \<and> parseRule [] = Inl ErrFieldCount"
proof -
  have "length (Fields s) \<noteq> 4 \<Longrightarrow> parseRule s = Inl ErrFieldCount"
    by (simp add: parseRule_def)
  moreover have "Fields ''17:20-21:35 1-5 *'' = [''17:20-21:35'', ''1-5'', ''*'']"
    by (simp add: Fields_def spaceWidth_def isSpaceRune_def)
  moreover have "parseRule [] = Inl ErrFieldCount"
    by (simp add: parseRule_def Fields_def)
  ultimately show ?thesis
    using parseRule_Inr[of s r] by (simp add: parseRule_def)
qed

theorem parseRule_field_count_witness:
  "parseRule ''* * * *'' = Inr anyTimeRule
   \<and> Fields ''* * * *'' = [''*'', ''*'', ''*'', ''*'']
   \<and> length (Fields ''* 0,6 * * *'') \<noteq> 4
   \<and> parseRule ''* 0,6 * * *'' = Inl ErrFieldCount"
proof -
  have p: "parseRule ''* * * *'' = Inr anyTimeRule"
    by (simp add: eval_defs anyTimeRule_def anyValue_def allDay_def)
  have f: "Fields ''* * * *'' = [''*'', ''*'', ''*'', ''*'']"
    by (simp add: Fields_def spaceWidth_def isSpaceRune_def)
  have l: "length (Fields ''* 0,6 * * *'') \<noteq> 4"
    by (simp add: Fields_def spaceWidth_def isSpaceRune_def)
  show ?thesis
    using p f l parseRule_field_count[of "''* 0,6 * * *''" anyTimeRule]
      parseRule_field_count[of "''* * * *''" anyTimeRule]
    by simp
qed

section \<open>A Field with no value\<close>

text \<open>
  Claim C10. A Field whose \<open>all\<close> flag is off and whose map has no key is printed as
  \<open>"*"\<close>, the text of the Field that matches everything: it matches no value, yet its text
  parses back to the Field that matches every value. \<open>parseField\<close> never returns such a
  Field.
\<close>

theorem Field_String_empty_set:
  assumes "\<not> Field_all f" and "Mapping.keys (Field_values f) = {}"
  shows "Field_String f = ''*''
    \<and> Field_String anyValue = ''*''
    \<and> (\<forall>v. \<not> Field_matches f v)
    \<and> parseField (Field_String f) min' max' = Inr anyValue
    \<and> (\<forall>v. Field_matches anyValue v)
    \<and> (\<forall>s mn mx g. parseField s mn mx = Inr g
          \<longrightarrow> Field_all g \<or> Mapping.keys (Field_values g) \<noteq> {})"
proof -
  have str: "Field_String f = ''*''"
    using assms by (simp add: Field_String_def ordered_keys_no_keys)
  have "\<not> Field_matches f v" for v
    using assms by (simp add: Field_matches_def lookup_default_no_keys)
  moreover have "Field_all g \<or> Mapping.keys (Field_values g) \<noteq> {}"
    if "parseField s mn mx = Inr g" for s mn mx g
    using parseField_Inr[OF that] by auto
  ultimately show ?thesis
    using str by (simp add: Field_String_def anyValue_def parseField_def Field_matches_def)
qed

theorem Field_String_empty_set_witness:
  "\<not> Field_all \<lparr>Field_values = Mapping.empty, Field_all = False\<rparr>
   \<and> Mapping.keys (Field_values \<lparr>Field_values = Mapping.empty, Field_all = False\<rparr>) = {}
   \<and> Field_String \<lparr>Field_values = Mapping.empty, Field_all = False\<rparr> = ''*''
   \<and> \<not> Field_matches \<lparr>Field_values = Mapping.empty, Field_all = False\<rparr> 3
   \<and> parseField (Field_String \<lparr>Field_values = Mapping.empty, Field_all = False\<rparr>) 0 6
       = Inr anyValue
   \<and> Field_matches anyValue 3"
  using Field_String_empty_set[of "\<lparr>Field_values = Mapping.empty, Field_all = False\<rparr>" 0 6]
  by auto

section \<open>Printing a Field and reading it back\<close>

text \<open>
  Claim C4. For a token that \<open>parseField\<close> accepts with bounds \<open>(min, max)\<close>, the text
  that \<open>Field.String\<close> prints for the resulting Field denotes the same set of integers as the
  token: \<open>parseField\<close> reads the printed text back to the very same Field, and the values of
  the items of both texts are the same set. The texts may differ: \<open>"1,3-3,5"\<close> and
  \<open>"1,3,5"\<close> are both printed as \<open>"1,3,5"\<close>, and \<open>"1-2,3"\<close> as \<open>"1-3"\<close>. (The bound
  \<open>max\<close> is below the largest \<open>int\<close>, so that the counter of the loop that fills a range cannot
  overflow.)
\<close>

theorem parseField_String_same_set:
  assumes "parseField s min' max' = Inr f" and "max' < maxInt"
  shows "parseField (Field_String f) min' max' = Inr f
    \<and> (s = ''*'' \<longrightarrow> Field_String f = ''*'')
    \<and> (s \<noteq> ''*'' \<longrightarrow> Field_String f \<noteq> ''*''
          \<and> tokenValues (Field_String f) = tokenValues s)
    \<and> map_sum id Field_String (parseField ''1,3-3,5'' 0 6) = Inr ''1,3,5''
    \<and> map_sum id Field_String (parseField ''1,3,5'' 0 6) = Inr ''1,3,5''
    \<and> map_sum id Field_String (parseField ''1-2,3'' 0 6) = Inr ''1-3''"
proof -
  have rt: "parseField (Field_String f) min' max' = Inr f"
    using parseField_Field_String[OF assms(1)] by simp
  have star: "Field_String f = ''*''" if "s = ''*''"
    using that assms(1) by (auto simp: parseField_def Field_String_def)
  have nostar: "Field_String f \<noteq> ''*''" if "s \<noteq> ''*''"
  proof -
    from parseField_Inr[OF assms(1)] that have "\<not> Field_all f" by auto
    with parseField_Inr[OF rt] show ?thesis by auto
  qed
  have same: "tokenValues (Field_String f) = tokenValues s" if "s \<noteq> ''*''"
    using parseField_keys[OF rt nostar[OF that]] parseField_keys[OF assms(1) that] by simp
  have e1: "map_sum id Field_String (parseField ''1,3-3,5'' 0 6) = Inr ''1,3,5''"
    by (simp add: eval_defs print_defs)
  have e2: "map_sum id Field_String (parseField ''1,3,5'' 0 6) = Inr ''1,3,5''"
    by (simp add: eval_defs print_defs)
  have e3: "map_sum id Field_String (parseField ''1-2,3'' 0 6) = Inr ''1-3''"
    by (simp add: eval_defs print_defs)
  show ?thesis using rt star nostar same e1 e2 e3 by blast
qed

theorem parseField_String_same_set_witness:
  "parseField ''3,1-2,5,3'' 0 6
     = Inr \<lparr>Field_values = Mapping.update 3 True (Mapping.update 5 True
              (fillRange 1 2 (Mapping.update 3 True Mapping.empty))), Field_all = False\<rparr>
   \<and> (6 :: int) < maxInt
   \<and> Field_String \<lparr>Field_values = Mapping.update 3 True (Mapping.update 5 True
              (fillRange 1 2 (Mapping.update 3 True Mapping.empty))), Field_all = False\<rparr>
      = ''1-3,5''
   \<and> parseField ''1-3,5'' 0 6
     = Inr \<lparr>Field_values = Mapping.update 3 True (Mapping.update 5 True
              (fillRange 1 2 (Mapping.update 3 True Mapping.empty))), Field_all = False\<rparr>
   \<and> tokenValues ''1-3,5'' = tokenValues ''3,1-2,5,3''"
  (is "?p = Inr ?f \<and> _ \<and> _ \<and> _ \<and> _")
proof -
  have p: "?p = Inr ?f"
    by (simp add: eval_defs)
  have m: "(6 :: int) < maxInt" by (simp add: maxInt_def)
  have s: "Field_String ?f = ''1-3,5''"
    by (simp add: print_defs)
  show ?thesis
    using p m s parseField_String_same_set[OF p m] by simp
qed

section \<open>The items of a bounded field\<close>

text \<open>
  Claim C6. With bounds \<open>[min, max]\<close> (\<open>max\<close> below the largest \<open>int\<close>), \<open>parseField\<close>
  rejects a range item \<open>a-b\<close> (an item that splits at \<open>-\<close> into exactly two integers)
  exactly when \<open>a > b\<close> or one of \<open>a\<close>, \<open>b\<close> is outside the bounds, and otherwise stores
  \<open>true\<close> at every integer from \<open>a\<close> to \<open>b\<close> and leaves the other keys as they were; it
  rejects a bare integer (an item without \<open>-\<close> that is an integer) exactly when it is
  outside the bounds and otherwise stores it. Whether an item is rejected does not depend on
  what is stored already; \<open>parseField\<close> fails exactly when one of the items is rejected, and
  otherwise the keys of the resulting Field are the union of the values of the items: items
  that overlap, as in \<open>"1-3,2-5,3"\<close>, are no error.
\<close>

theorem parseFieldItem_bounds:
  assumes "max' < maxInt"
  shows
  "(Contains r (CHR ''-'') \<and> Split r (CHR ''-'') = [x, y] \<and> Atoi x = Inr a \<and> Atoi y = Inr b
      \<longrightarrow> (isl (parseFieldItem r min' max' vals)
            \<longleftrightarrow> b < a \<or> a < min' \<or> max' < a \<or> b < min' \<or> max' < b)
        \<and> (\<not> isl (parseFieldItem r min' max' vals)
            \<longrightarrow> (\<exists>vals'. parseFieldItem r min' max' vals = Inr vals'
                  \<and> (\<forall>k. Mapping.lookup vals' k
                        = (if a \<le> k \<and> k \<le> b then Some True else Mapping.lookup vals k)))))
   \<and> (\<not> Contains r (CHR ''-'') \<and> Atoi r = Inr v
      \<longrightarrow> (isl (parseFieldItem r min' max' vals) \<longleftrightarrow> v < min' \<or> max' < v)
        \<and> (\<not> isl (parseFieldItem r min' max' vals)
            \<longrightarrow> parseFieldItem r min' max' vals = Inr (Mapping.update v True vals)))
   \<and> isl (parseFieldItem r min' max' vals) = isl (parseFieldItem r min' max' vals2)
   \<and> (s \<noteq> ''*'' \<and> parseField s min' max' = Inr f
      \<longrightarrow> Mapping.keys (Field_values f) = tokenValues s \<and> trueSet (Field_values f))
   \<and> (s \<noteq> ''*''
      \<longrightarrow> isl (parseField s min' max')
          = (\<exists>i\<in>set (Split s (CHR '','')). isl (parseFieldItem i min' max' vals)))
   \<and> map_sum id (\<lambda>f. Mapping.ordered_keys (Field_values f)) (parseField ''1-3,2-5,3'' 0 6)
      = Inr [1, 2, 3, 4, 5]"
proof -
  have range: "(isl (parseFieldItem r min' max' vals)
            \<longleftrightarrow> b < a \<or> a < min' \<or> max' < a \<or> b < min' \<or> max' < b)
        \<and> (\<not> isl (parseFieldItem r min' max' vals)
            \<longrightarrow> (\<exists>vals'. parseFieldItem r min' max' vals = Inr vals'
                  \<and> (\<forall>k. Mapping.lookup vals' k
                        = (if a \<le> k \<and> k \<le> b then Some True else Mapping.lookup vals k))))"
    if "Contains r (CHR ''-'')" "Split r (CHR ''-'') = [x, y]" "Atoi x = Inr a" "Atoi y = Inr b"
    using that by (auto simp: parseFieldItem_def lookup_fillRange)
  have bare: "(isl (parseFieldItem r min' max' vals) \<longleftrightarrow> v < min' \<or> max' < v)
        \<and> (\<not> isl (parseFieldItem r min' max' vals)
            \<longrightarrow> parseFieldItem r min' max' vals = Inr (Mapping.update v True vals))"
    if "\<not> Contains r (CHR ''-'')" "Atoi r = Inr v"
    using that by (auto simp: parseFieldItem_def)
  have union: "Mapping.keys (Field_values f) = tokenValues s \<and> trueSet (Field_values f)"
    if "s \<noteq> ''*''" "parseField s min' max' = Inr f"
    using parseField_keys[OF that(2) that(1)] parseField_Inr[OF that(2)] that(1) by auto
  have ex: "map_sum id (\<lambda>f. Mapping.ordered_keys (Field_values f)) (parseField ''1-3,2-5,3'' 0 6)
      = Inr [1, 2, 3, 4, 5]"
    by (simp add: eval_defs fillRange.simps)
  have rej: "isl (parseField s min' max')
      = (\<exists>i\<in>set (Split s (CHR '','')). isl (parseFieldItem i min' max' vals))"
    if "s \<noteq> ''*''"
    by (rule parseField_isl[OF that])
  show ?thesis
    using range bare union ex rej parseFieldItem_isl_indep[of r min' max' vals vals2] by blast
qed

theorem parseFieldItem_bounds_witness:
  "(6 :: int) < maxInt
   \<and> Contains ''2-4'' (CHR ''-'') \<and> Split ''2-4'' (CHR ''-'') = [''2'', ''4'']
   \<and> Atoi ''2'' = Inr 2 \<and> Atoi ''4'' = Inr 4
   \<and> parseFieldItem ''2-4'' 0 6 (Mapping.update 3 True Mapping.empty)
       = Inr (fillRange 2 4 (Mapping.update 3 True Mapping.empty))
   \<and> \<not> Contains ''7'' (CHR ''-'') \<and> Atoi ''7'' = Inr 7
   \<and> isl (parseFieldItem ''7'' 0 6 Mapping.empty)
   \<and> ''2-4,3'' \<noteq> ''*''
   \<and> parseField ''2-4,3'' 0 6
       = Inr \<lparr>Field_values = Mapping.update 3 True (fillRange 2 4 Mapping.empty),
              Field_all = False\<rparr>
   \<and> tokenValues ''2-4,3'' = {2, 3, 4}"
proof -
  have m: "(6 :: int) < maxInt" by (simp add: maxInt_def)
  have c: "Contains ''2-4'' (CHR ''-'')" "Split ''2-4'' (CHR ''-'') = [''2'', ''4'']"
    "Atoi ''2'' = Inr 2" "Atoi ''4'' = Inr 4" "\<not> Contains ''7'' (CHR ''-'')" "Atoi ''7'' = Inr 7"
    by (simp_all add: eval_defs)
  have i: "parseFieldItem ''2-4'' 0 6 (Mapping.update 3 True Mapping.empty)
       = Inr (fillRange 2 4 (Mapping.update 3 True Mapping.empty))"
    by (simp add: eval_defs)
  have p: "parseField ''2-4,3'' 0 6
       = Inr \<lparr>Field_values = Mapping.update 3 True (fillRange 2 4 Mapping.empty),
              Field_all = False\<rparr>"
    by (simp add: eval_defs)
  have k: "Mapping.keys (Mapping.update 3 True (fillRange 2 4 Mapping.empty)) = {2, 3, 4}"
    by (auto simp: keys_fillRange)
  show ?thesis
    using m c i p k
      parseFieldItem_bounds[OF m, of "''7''" "''2''" "''4''" 2 4 0 Mapping.empty 7 Mapping.empty
        "''2-4,3''" "\<lparr>Field_values = Mapping.update 3 True (fillRange 2 4 Mapping.empty),
              Field_all = False\<rparr>"]
      parseFieldItem_bounds[OF m, of "''2-4''" "''2''" "''4''" 2 4 0
        "Mapping.update 3 True Mapping.empty"]
    by simp
qed

section \<open>Time ranges that are rejected\<close>

text \<open>
  Claim C7. A time-range token other than \<open>"*"\<close> that does not split at \<open>-\<close> into exactly
  two parts fails with the time-range format error. It is accepted exactly when it has two
  parts and each is a time of day as the specification words it: two or three integers
  separated by colons, the hour from 0 to 23, the minute and the second from 0 to 59; a part
  with fewer than two or more than three components fails with the time format error. In
  particular hour 24 is rejected, and so are weekday 7, day of month 32 and month 13 in their
  fields.
\<close>

theorem parseTimeRange_rejects:
  assumes "s \<noteq> ''*''"
  shows "(length (Split s (CHR ''-'')) \<noteq> 2 \<longrightarrow> parseTimeRange s = Inl ErrTimeRangeFormat)
    \<and> ((\<not> isl (parseTimeRange s))
        = (\<exists>a b. Split s (CHR ''-'') = [a, b] \<and> spec_timeOfDay a \<and> spec_timeOfDay b))
    \<and> (length (Split a (CHR '':'')) < 2 \<or> 3 < length (Split a (CHR '':''))
        \<longrightarrow> parseTime a = Inl ErrTimeFormat)
    \<and> (\<not> isl (parseTime a)) = spec_timeOfDay a
    \<and> parseTime ''24:00'' = Inl ErrTimeValues
    \<and> parseTimeRange ''24:00-17:00'' = Inl ErrTimeValues
    \<and> parseField ''7'' 0 6 = Inl ErrValueOutOfRange
    \<and> parseField ''32'' 1 31 = Inl ErrValueOutOfRange
    \<and> parseField ''13'' 1 12 = Inl ErrValueOutOfRange
    \<and> parseRule ''24:00-17:00 * * *'' = Inl ErrTimeValues
    \<and> parseRule ''17:20-21:35 7 * *'' = Inl (ErrInvalidDow ErrValueOutOfRange)
    \<and> parseRule ''17:20-21:35 1-5 32 *'' = Inl (ErrInvalidDom ErrValueOutOfRange)
    \<and> parseRule ''17:20-21:35 1-5 * 13'' = Inl (ErrInvalidMonth ErrValueOutOfRange)"
proof -
  have fmt: "parseTimeRange s = Inl ErrTimeRangeFormat" if "length (Split s (CHR ''-'')) \<noteq> 2"
    using that assms by (simp add: parseTimeRange_def)
  have tfmt: "parseTime a = Inl ErrTimeFormat"
    if "length (Split a (CHR '':'')) < 2 \<or> 3 < length (Split a (CHR '':''))"
    using that by (auto simp: parseTime_def)
  have e1: "parseTime ''24:00'' = Inl ErrTimeValues" by (simp add: eval_defs)
  have e2: "parseTimeRange ''24:00-17:00'' = Inl ErrTimeValues" by (simp add: eval_defs)
  have e3: "parseField ''7'' 0 6 = Inl ErrValueOutOfRange"
    "parseField ''32'' 1 31 = Inl ErrValueOutOfRange"
    "parseField ''13'' 1 12 = Inl ErrValueOutOfRange"
    by (simp_all add: eval_defs)
  have e4: "parseRule ''24:00-17:00 * * *'' = Inl ErrTimeValues" by (simp add: eval_defs)
  have e5: "parseRule ''17:20-21:35 7 * *'' = Inl (ErrInvalidDow ErrValueOutOfRange)"
    by (simp add: eval_defs)
  have e6: "parseRule ''17:20-21:35 1-5 32 *'' = Inl (ErrInvalidDom ErrValueOutOfRange)"
    by (simp add: eval_defs fillRange.simps)
  have e7: "parseRule ''17:20-21:35 1-5 * 13'' = Inl (ErrInvalidMonth ErrValueOutOfRange)"
    by (simp add: eval_defs fillRange.simps)
  show ?thesis
    using fmt tfmt parseTimeRange_accepts[OF assms] parseTime_accepts[of a] e1 e2 e3 e4 e5 e6 e7
    by blast
qed

theorem parseTimeRange_rejects_witness:
  "''9:00to17:00'' \<noteq> ''*''
   \<and> length (Split ''9:00to17:00'' (CHR ''-'')) \<noteq> 2
   \<and> parseTimeRange ''9:00to17:00'' = Inl ErrTimeRangeFormat
   \<and> length (Split ''0900'' (CHR '':'')) < 2
   \<and> parseTime ''0900'' = Inl ErrTimeFormat
   \<and> ''09:00:11-17:00'' \<noteq> ''*''
   \<and> Split ''09:00:11-17:00'' (CHR ''-'') = [''09:00:11'', ''17:00'']
   \<and> spec_timeOfDay ''09:00:11'' \<and> spec_timeOfDay ''17:00''
   \<and> \<not> isl (parseTimeRange ''09:00:11-17:00'')"
proof -
  have a: "''9:00to17:00'' \<noteq> ''*''" "''09:00:11-17:00'' \<noteq> ''*''" by simp_all
  have b: "length (Split ''9:00to17:00'' (CHR ''-'')) \<noteq> 2"
    "length (Split ''0900'' (CHR '':'')) < 2"
    "Split ''09:00:11-17:00'' (CHR ''-'') = [''09:00:11'', ''17:00'']"
    by simp_all
  have c: "spec_timeOfDay ''09:00:11''" "spec_timeOfDay ''17:00''"
    by (simp_all add: spec_timeOfDay_def eval_defs)
  show ?thesis
    using a b c parseTimeRange_rejects[OF a(1), of "''0900''"]
      parseTimeRange_rejects[OF a(2), of "''0900''"]
    by simp
qed

section \<open>Loading rules from a stream\<close>




section \<open>The canonical text\<close>

text \<open>
  Claim C5. Canonicalization is idempotent: for an expression that \<open>Parse\<close> accepts, the
  text of its rules (each printed by \<open>Rule.String\<close>, joined by \<open>"; "\<close>) parses to the very
  same rules, so printing them again gives the same text.
\<close>

theorem canonical_form_idempotent:
  assumes "Parse x = Inr rs"
  shows "Parse (formatRules rs) = Inr rs
    \<and> map_sum id formatRules (Parse (formatRules rs)) = Inr (formatRules rs)"
  using Parse_formatRules[OF assms] by simp

theorem canonical_form_idempotent_witness:
  "Parse ''*  0-0,6  * * ;* * * *'' = Inr [weekendRule, anyTimeRule]
   \<and> formatRules [weekendRule, anyTimeRule] = ''* 0,6 * *; * * * *''
   \<and> Parse ''* 0,6 * *; * * * *'' = Inr [weekendRule, anyTimeRule]"
proof -
  have p: "Parse ''*  0-0,6  * * ;* * * *'' = Inr [weekendRule, anyTimeRule]"
    by (simp add: trim_defs eval_defs fillRange.simps weekendRule_def anyTimeRule_def anyValue_def
        allDay_def)
  have f: "formatRules [weekendRule, anyTimeRule] = ''* 0,6 * *; * * * *''"
    by (simp add: formatRules_def Rule_String_def TimeRange_String_def print_defs
        weekendRule_def anyTimeRule_def anyValue_def allDay_def)
  show ?thesis
    using p f canonical_form_idempotent[OF p] by simp
qed

end
